theory Spec2Isabelle
  imports Main "HOL-Library.Sublist"
begin

section \<open>Paths\<close>

text \<open>
  A path is the list of its components below the root, already resolved (as
  \<^verbatim>\<open>process.cwd()\<close> and \<^verbatim>\<open>__dirname\<close> are). \<^verbatim>\<open>path.join(base, rel)\<close> on POSIX
  normalises the joined text: empty components and \<^verbatim>\<open>.\<close> vanish, \<^verbatim>\<open>..\<close> drops the
  last component (and stays at the root).
\<close>

type_synonym path = "string list"

fun split_slash :: "string \<Rightarrow> string list" where
  "split_slash [] = [[]]"
| "split_slash (c # cs) =
     (if c = CHR ''/'' then [] # split_slash cs
      else (case split_slash cs of [] \<Rightarrow> [[c]] | x # xs \<Rightarrow> (c # x) # xs))"

definition path_step :: "path \<Rightarrow> string \<Rightarrow> path" where
  "path_step p c =
     (if c = [] \<or> c = ''.'' then p else if c = ''..'' then butlast p else p @ [c])"

definition path_join :: "path \<Rightarrow> string \<Rightarrow> path" where
  "path_join base rel = foldl path_step base (split_slash rel)"

section \<open>The file system\<close>

text \<open>
  The file system maps a path to a directory or to a regular file with its content. It
  is an association list, read with \<open>map_of\<close>: the first entry of a path is the
  current one. There are no links, permissions or quotas: an operation fails only for
  the reasons written out below. An operation that fails leaves the file system as it
  was.
\<close>

datatype entry = D | F string

type_synonym fs = "(path \<times> entry) list"

abbreviation stat :: "fs \<Rightarrow> path \<Rightarrow> entry option" where
  "stat fs \<equiv> map_of fs"

fun is_file :: "entry option \<Rightarrow> bool" where
  "is_file (Some (F c)) = True"
| "is_file _ = False"

fun same_kind :: "entry \<Rightarrow> entry \<Rightarrow> bool" where
  "same_kind D D = True"
| "same_kind (F a) (F b) = True"
| "same_kind _ _ = False"

text \<open>A file system is a tree when every entry other than the root lies in a directory.\<close>

definition tree_fs :: "fs \<Rightarrow> bool" where
  "tree_fs fs = list_all (\<lambda>(p, e). p = [] \<or> stat fs (butlast p) = Some D) fs"

datatype error =
    DirectoryExists string
  | PromptCancelled
  | ENOENT path
  | ENOTDIR path
  | EISDIR path
  | CopySamePath path
  | CopyKindMismatch path
  | CopyIntoItself path path
  | TemplateError

definition pathExists :: "path \<Rightarrow> fs \<Rightarrow> bool" where
  "pathExists p fs = (stat fs p \<noteq> None)"

text \<open>
  \<^verbatim>\<open>fs.ensureDir\<close> is \<^verbatim>\<open>mkdir -p\<close>: it creates the path and every missing ancestor, and
  fails when the path or an ancestor is a regular file.
\<close>

definition ensureDir :: "path \<Rightarrow> fs \<Rightarrow> error + fs" where
  "ensureDir p fs =
     (case find (\<lambda>q. is_file (stat fs q)) (prefixes p) of
        Some q \<Rightarrow> Inl (ENOTDIR q)
      | None \<Rightarrow> Inr (map (\<lambda>q. (q, D)) (filter (\<lambda>q. stat fs q = None) (prefixes p)) @ fs))"

text \<open>
  \<^verbatim>\<open>fs.writeFile\<close> creates or replaces a regular file; the containing directory must
  exist, and the path must not be a directory.
\<close>

definition writeFile :: "path \<Rightarrow> string \<Rightarrow> fs \<Rightarrow> error + fs" where
  "writeFile p c fs =
     (if p = [] then Inl (EISDIR p)
      else (case stat fs (butlast p) of
              None \<Rightarrow> Inl (ENOENT p)
            | Some (F x) \<Rightarrow> Inl (ENOTDIR p)
            | Some D \<Rightarrow> (if stat fs p = Some D then Inl (EISDIR p) else Inr ((p, F c) # fs))))"

definition readFile :: "path \<Rightarrow> fs \<Rightarrow> error + string" where
  "readFile p fs =
     (case stat fs p of
        None \<Rightarrow> Inl (ENOENT p)
      | Some D \<Rightarrow> Inl (EISDIR p)
      | Some (F c) \<Rightarrow> Inr c)"

text \<open>
  \<^verbatim>\<open>fs.copy(src, dest)\<close> of fs-extra with its default options (overwrite). It checks
  that the source exists, that source and destination are not the same path, that
  they are of the same kind when the destination exists, and that a directory is not
  copied into itself; it creates the directory containing the destination; then it
  copies the source, a directory with everything below it, merging into an existing
  destination directory and replacing files. An item whose kind differs from what is
  at its destination is an error. \<open>copy_items\<close> lists what is at and
  below the source, by path relative to it.
\<close>

definition copy_items :: "path \<Rightarrow> fs \<Rightarrow> (path \<times> entry) list" where
  "copy_items src fs =
     map (\<lambda>(p, e). (drop (length src) p, e)) (filter (\<lambda>(p, e). prefix src p) fs)"

definition copy_clash :: "path \<Rightarrow> path \<Rightarrow> fs \<Rightarrow> bool" where
  "copy_clash src dst fs =
     list_ex (\<lambda>(q, e). case (stat fs (src @ q), stat fs (dst @ q)) of
                 (Some a, Some b) \<Rightarrow> \<not> same_kind a b
               | _ \<Rightarrow> False) (copy_items src fs)"

definition copy :: "path \<Rightarrow> path \<Rightarrow> fs \<Rightarrow> error + fs" where
  "copy src dst fs =
     (case stat fs src of
        None \<Rightarrow> Inl (ENOENT src)
      | Some se \<Rightarrow>
          if stat fs dst \<noteq> None \<and> src = dst then Inl (CopySamePath src)
          else if (case stat fs dst of None \<Rightarrow> False | Some de \<Rightarrow> \<not> same_kind se de)
            then Inl (CopyKindMismatch dst)
          else if se = D \<and> prefix src dst then Inl (CopyIntoItself src dst)
          else (case ensureDir (butlast dst) fs of
                  Inl e \<Rightarrow> Inl e
                | Inr fs1 \<Rightarrow>
                    if copy_clash src dst fs1 then Inl (CopyKindMismatch dst)
                    else Inr (map (\<lambda>(q, e). (dst @ q, e)) (copy_items src fs1) @ fs1)))"

section \<open>Runs: state, trace of file-system operations, sequencing\<close>

datatype op = EnsureDir path | Copy path path | WriteFile path string

fun apply_op :: "op \<Rightarrow> fs \<Rightarrow> error + fs" where
  "apply_op (EnsureDir p) = ensureDir p"
| "apply_op (Copy src dst) = copy src dst"
| "apply_op (WriteFile p c) = writeFile p c"

record state =
  files :: fs
  trace :: "op list"
  console :: "string list"

type_synonym prog = "state \<Rightarrow> (error + unit) \<times> state"

text \<open>
  An awaited file-system call: it changes the file system and is recorded in the
  trace, or it throws and the run stops there.
\<close>

definition perform :: "op \<Rightarrow> prog" where
  "perform x s =
     (case apply_op x (files s) of
        Inl e \<Rightarrow> (Inl e, s)
      | Inr fs' \<Rightarrow> (Inr (), s\<lparr>files := fs', trace := trace s @ [x]\<rparr>))"

definition console_log :: "string \<Rightarrow> prog" where
  "console_log msg s = (Inr (), s\<lparr>console := console s @ [msg]\<rparr>)"

text \<open>Statements in sequence: the first one that throws ends the run.\<close>

fun steps :: "prog list \<Rightarrow> prog" where
  "steps [] s = (Inr (), s)"
| "steps (m # ms) s =
     (case m s of
        (Inl e, s') \<Rightarrow> (Inl e, s')
      | (Inr u, s') \<Rightarrow> steps ms s')"

section \<open>Configuration\<close>

datatype template_kind = TaskBased | Oracle

fun template_name :: "template_kind \<Rightarrow> string" where
  "template_name TaskBased = ''task-based''"
| "template_name Oracle = ''oracle''"

text \<open>The answers of the prompt: the object \<^verbatim>\<open>config\<close> handed to the generators.\<close>

record config =
  projectName :: string
  template :: template_kind
  description :: string

text \<open>
  What a run is given from outside: the working directory, the directory of the
  running module (\<^verbatim>\<open>__dirname\<close>), and the prompt, which is shown the project name and
  the template of the command line as defaults and answers or is cancelled.
\<close>

record env =
  cwd :: path
  dirname :: path
  prompt :: "string \<Rightarrow> string \<Rightarrow> error + config"

section \<open>JSON text as \<^verbatim>\<open>JSON.stringify(value, null, 2)\<close> writes it\<close>

datatype json = JString string | JObject "(string \<times> json) list"

definition hex_digit :: "nat \<Rightarrow> char" where
  "hex_digit n = ''0123456789abcdef'' ! (n mod 16)"

definition json_escape_char :: "char \<Rightarrow> string" where
  \<open>json_escape_char c =
     (if c = CHR ''"'' then [CHR 0x5C, CHR ''"'']
      else if c = CHR 0x5C then [CHR 0x5C, CHR 0x5C]
      else if c = CHR 0x08 then [CHR 0x5C, CHR ''b'']
      else if c = CHR 0x0C then [CHR 0x5C, CHR ''f'']
      else if c = CHR 0x0A then [CHR 0x5C, CHR ''n'']
      else if c = CHR 0x0D then [CHR 0x5C, CHR ''r'']
      else if c = CHR 0x09 then [CHR 0x5C, CHR ''t'']
      else if (of_char c :: nat) < 32
        then [CHR 0x5C, CHR ''u'', CHR ''0'', CHR ''0'',
              hex_digit (of_char c div 16), hex_digit (of_char c)]
      else [c])\<close>

definition json_quote :: "string \<Rightarrow> string" where
  \<open>json_quote s = [CHR ''"''] @ concat (map json_escape_char s) @ [CHR ''"'']\<close>

fun join_lines :: "string list \<Rightarrow> string" where
  "join_lines [] = []"
| "join_lines [x] = x"
| "join_lines (x # y # ys) = x @ '',\<newline>'' @ join_lines (y # ys)"

fun json_stringify :: "nat \<Rightarrow> json \<Rightarrow> string" where
  "json_stringify ind (JString s) = json_quote s"
| "json_stringify ind (JObject ms) =
     (if ms = [] then ''{}''
      else ''{\<newline>'' @
           join_lines (map (\<lambda>(k, v). replicate (ind + 2) CHR '' '' @ json_quote k @ '': '' @
                                     json_stringify (ind + 2) v) ms) @
           ''\<newline>'' @ replicate ind CHR '' '' @ ''}'')"

fun json_field :: "json \<Rightarrow> string \<Rightarrow> json option" where
  "json_field (JObject ms) k = map_of ms k"
| "json_field (JString s) k = None"

section \<open>Handlebars\<close>

text \<open>
  \<^verbatim>\<open>Handlebars.compile(body)(context)\<close> on the templates made of text and of simple
  mustaches \<^verbatim>\<open>{{name}}\<close>, where \<^verbatim>\<open>name\<close> is an identifier of letters, digits and
  underscores that is neither a helper, a literal, a keyword nor a member of
  \<^verbatim>\<open>Object.prototype\<close>. A mustache is replaced by the HTML-escaped value of the
  context's field of that name, and by nothing when the context has no such field.
  The result is \<open>None\<close> for every other body: one that Handlebars refuses (an
  unclosed mustache) or one that uses more of its language (blocks, helpers, paths,
  triple mustaches, comments, partials, escapes with a backslash).
\<close>

definition escape_char :: "char \<Rightarrow> string" where
  \<open>escape_char c =
     (if c = CHR ''&'' then ''&amp;''
      else if c = CHR ''<'' then ''&lt;''
      else if c = CHR ''>'' then ''&gt;''
      else if c = CHR ''"'' then ''&quot;''
      else if c = CHR 0x27 then ''&#x27;''
      else if c = CHR ''`'' then ''&#x60;''
      else if c = CHR ''='' then ''&#x3D;''
      else [c])\<close>

definition escapeExpression :: "string \<Rightarrow> string" where
  "escapeExpression s = concat (map escape_char s)"

definition hb_space :: "char \<Rightarrow> bool" where
  "hb_space c = (c \<in> set [CHR '' '', CHR 0x09, CHR 0x0A, CHR 0x0D])"

definition hb_id_start :: "char \<Rightarrow> bool" where
  "hb_id_start c = (c \<in> set ''abcdefghijklmnopqrstuvwxyzABCDEFGHIJKLMNOPQRSTUVWXYZ_'')"

definition hb_id_char :: "char \<Rightarrow> bool" where
  "hb_id_char c = (hb_id_start c \<or> c \<in> set ''0123456789'')"

definition hb_reserved :: "string list" where
  "hb_reserved =
     [''if'', ''unless'', ''each'', ''with'', ''log'', ''lookup'', ''helperMissing'',
      ''blockHelperMissing'', ''else'', ''this'', ''true'', ''false'', ''null'',
      ''undefined'', ''as'', ''constructor'', ''hasOwnProperty'', ''isPrototypeOf'',
      ''propertyIsEnumerable'', ''toLocaleString'', ''toString'', ''valueOf'',
      ''__proto__'', ''__defineGetter__'', ''__defineSetter__'', ''__lookupGetter__'',
      ''__lookupSetter__'']"

text \<open>What follows \<^verbatim>\<open>{{\<close>: the name of the mustache and the text after its \<^verbatim>\<open>}}\<close>.\<close>

definition split_mustache :: "string \<Rightarrow> (string \<times> string) option" where
  "split_mustache s =
     (let s1 = dropWhile hb_space s;
          name = takeWhile hb_id_char s1;
          s2 = dropWhile hb_space (dropWhile hb_id_char s1)
      in if name \<noteq> [] \<and> hb_id_start (hd name) \<and> name \<notin> set hb_reserved \<and> take 2 s2 = ''}}''
         then Some (name, drop 2 s2) else None)"

definition mustache_value :: "(string \<rightharpoonup> string) \<Rightarrow> string \<Rightarrow> string" where
  "mustache_value ctx name = (case ctx name of None \<Rightarrow> [] | Some v \<Rightarrow> escapeExpression v)"

lemma split_mustache_shorter:
  "split_mustache s = Some (name, rest) \<Longrightarrow> length rest \<le> length s"
proof -
  assume a: "split_mustache s = Some (name, rest)"
  have "length (dropWhile hb_space (dropWhile hb_id_char (dropWhile hb_space s))) \<le> length s"
    by (meson length_dropWhile_le order_trans)
  with a show ?thesis
    by (auto simp: split_mustache_def Let_def split: if_splits)
qed

function Handlebars_compile :: "string \<Rightarrow> (string \<rightharpoonup> string) \<Rightarrow> string option" where
  "Handlebars_compile [] ctx = Some []"
| "Handlebars_compile (c # cs) ctx =
     (if c = CHR ''{'' \<and> take 1 cs = ''{'' then
        (case split_mustache (drop 1 cs) of
           None \<Rightarrow> None
         | Some (name, rest) \<Rightarrow>
             map_option (\<lambda>out. mustache_value ctx name @ out) (Handlebars_compile rest ctx))
      else if c = CHR 0x5C \<and> take 2 cs = ''{{'' then None
      else map_option ((#) c) (Handlebars_compile cs ctx))"
  by pat_completeness auto
termination Handlebars_compile
proof (relation "measure (\<lambda>(body, ctx). length body)")
  show "wf (measure (\<lambda>(body, ctx). length body))"
    by simp
next
  fix c :: char and cs name rest :: string and ctx :: "string \<rightharpoonup> string" and x2
  assume "split_mustache (drop 1 cs) = Some x2" "(name, rest) = x2"
  then have "length rest \<le> length (drop 1 cs)"
    using split_mustache_shorter [of "drop 1 cs" name rest] by simp
  then show "((rest, ctx), c # cs, ctx) \<in> measure (\<lambda>(body, ctx). length body)"
    by simp
next
  fix c :: char and cs :: string and ctx :: "string \<rightharpoonup> string"
  show "((cs, ctx), c # cs, ctx) \<in> measure (\<lambda>(body, ctx). length body)"
    by simp
qed

text \<open>The context the templates see: the fields of \<^verbatim>\<open>config\<close>.\<close>

definition context_of :: "config \<Rightarrow> (string \<rightharpoonup> string)" where
  "context_of config =
     map_of [(''projectName'', projectName config),
             (''template'', template_name (template config)),
             (''description'', description config)]"

section \<open>The generators of \<^verbatim>\<open>scaffold.ts\<close>\<close>

definition getDefaultPackageJsonTemplate :: string where
  \<open>getDefaultPackageJsonTemplate =
     ''{\<newline>'' @
     ''  "name": "{{projectName}}",\<newline>'' @
     ''  "version": "0.1.0",\<newline>'' @
     ''  "description": "{{description}}",\<newline>'' @
     ''  "scripts": {\<newline>'' @
     ''    "compile": "hardhat compile",\<newline>'' @
     ''    "test": "hardhat test",\<newline>'' @
     ''    "deploy": "hardhat run scripts/deploy.ts"\<newline>'' @
     ''  },\<newline>'' @
     ''  "devDependencies": {\<newline>'' @
     ''    "@nomicfoundation/hardhat-toolbox": "^4.0.0",\<newline>'' @
     ''    "hardhat": "^2.19.4",\<newline>'' @
     ''    "typescript": "^5.3.3"\<newline>'' @
     ''  }\<newline>'' @
     ''}''\<close>

definition getHardhatConfig :: string where
  \<open>getHardhatConfig =
     ''import { HardhatUserConfig } from "hardhat/config";\<newline>'' @
     ''import "@nomicfoundation/hardhat-toolbox";\<newline>'' @
     ''\<newline>'' @
     ''const config: HardhatUserConfig = {\<newline>'' @
     ''  solidity: {\<newline>'' @
     ''    version: "0.8.20",\<newline>'' @
     ''    settings: {\<newline>'' @
     ''      optimizer: {\<newline>'' @
     ''        enabled: true,\<newline>'' @
     ''        runs: 200,\<newline>'' @
     ''      },\<newline>'' @
     ''    },\<newline>'' @
     ''  },\<newline>'' @
     ''  networks: {\<newline>'' @
     ''    hardhat: {\<newline>'' @
     ''      chainId: 31337,\<newline>'' @
     ''    },\<newline>'' @
     ''    localhost: {\<newline>'' @
     ''      url: "http://127.0.0.1:8545",\<newline>'' @
     ''    },\<newline>'' @
     ''  },\<newline>'' @
     ''};\<newline>'' @
     ''\<newline>'' @
     ''export default config;\<newline>''\<close>

definition getDeployScript :: string where
  \<open>getDeployScript =
     ''import { ethers } from "hardhat";\<newline>'' @
     ''\<newline>'' @
     ''async function main() {\<newline>'' @
     ''  const [deployer] = await ethers.getSigners();\<newline>'' @
     ''  console.log("Deploying contracts with account:", deployer.address);\<newline>'' @
     ''\<newline>'' @
     ''  const TaskMailbox = await ethers.getContractFactory("TaskMailbox");\<newline>'' @
     ''  const mailbox = await TaskMailbox.deploy();\<newline>'' @
     ''  await mailbox.waitForDeployment();\<newline>'' @
     ''  console.log("TaskMailbox deployed to:", await mailbox.getAddress());\<newline>'' @
     ''\<newline>'' @
     ''  const TaskAVSRegistrar = await ethers.getContractFactory("TaskAVSRegistrar");\<newline>'' @
     ''  const delegationManager = process.env.DELEGATION_MANAGER || ethers.ZeroAddress;\<newline>'' @
     ''  const registrar = await TaskAVSRegistrar.deploy(\<newline>'' @
     ''    await mailbox.getAddress(),\<newline>'' @
     ''    delegationManager\<newline>'' @
     ''  );\<newline>'' @
     ''  await registrar.waitForDeployment();\<newline>'' @
     ''  console.log("TaskAVSRegistrar deployed to:", await registrar.getAddress());\<newline>'' @
     ''}\<newline>'' @
     ''\<newline>'' @
     ''main()\<newline>'' @
     ''  .then(() => process.exit(0))\<newline>'' @
     ''  .catch((error) => {\<newline>'' @
     ''    console.error(error);\<newline>'' @
     ''    process.exit(1);\<newline>'' @
     ''  });\<newline>''\<close>

definition getTestFile :: string where
  \<open>getTestFile =
     ''import { expect } from "chai";\<newline>'' @
     ''import { ethers } from "hardhat";\<newline>'' @
     ''\<newline>'' @
     ''describe("TaskMailbox", function () {\<newline>'' @
     ''  it("Should submit a task", async function () {\<newline>'' @
     ''    const TaskMailbox = await ethers.getContractFactory("TaskMailbox");\<newline>'' @
     ''    const mailbox = await TaskMailbox.deploy();\<newline>'' @
     ''    await mailbox.waitForDeployment();\<newline>'' @
     ''\<newline>'' @
     ''    const taskData = ethers.toUtf8Bytes("test task");\<newline>'' @
     ''    const tx = await mailbox.submitTask(taskData);\<newline>'' @
     ''    const receipt = await tx.wait();\<newline>'' @
     ''\<newline>'' @
     ''    expect(receipt).to.not.be.null;\<newline>'' @
     ''  });\<newline>'' @
     ''});\<newline>''\<close>

definition getAggregatorCode :: string where
  \<open>getAggregatorCode =
     ''import { ethers } from 'ethers';\<newline>'' @
     ''\<newline>'' @
     ''export class Aggregator {\<newline>'' @
     ''  private provider: ethers.Provider;\<newline>'' @
     ''  private contract: ethers.Contract;\<newline>'' @
     ''\<newline>'' @
     ''  constructor(providerUrl: string, contractAddress: string, abi: any[]) {\<newline>'' @
     ''    this.provider = new ethers.JsonRpcProvider(providerUrl);\<newline>'' @
     ''    this.contract = new ethers.Contract(contractAddress, abi, this.provider);\<newline>'' @
     ''  }\<newline>'' @
     ''\<newline>'' @
     ''  async aggregateTask(taskId: bigint): Promise<void> {\<newline>'' @
     ''    // Implement aggregation logic\<newline>'' @
     ''    console.log(`Aggregating task ${taskId}`);\<newline>'' @
     ''  }\<newline>'' @
     ''}\<newline>''\<close>

definition getExecutorCode :: string where
  \<open>getExecutorCode =
     ''import { ethers } from 'ethers';\<newline>'' @
     ''\<newline>'' @
     ''export class Executor {\<newline>'' @
     ''  private provider: ethers.Provider;\<newline>'' @
     ''  private wallet: ethers.Wallet;\<newline>'' @
     ''\<newline>'' @
     ''  constructor(providerUrl: string, privateKey: string) {\<newline>'' @
     ''    this.provider = new ethers.JsonRpcProvider(providerUrl);\<newline>'' @
     ''    this.wallet = new ethers.Wallet(privateKey, this.provider);\<newline>'' @
     ''  }\<newline>'' @
     ''\<newline>'' @
     ''  async executeTask(taskData: string): Promise<string> {\<newline>'' @
     ''    // Implement task execution logic\<newline>'' @
     ''    console.log(`Executing task: ${taskData}`);\<newline>'' @
     ''    return 'result';\<newline>'' @
     ''  }\<newline>'' @
     ''}\<newline>''\<close>

text \<open>The object written to \<^verbatim>\<open>off-chain/package.json\<close>.\<close>

definition offChainPackageJson :: "config \<Rightarrow> json" where
  "offChainPackageJson config =
     JObject [(''name'', JString (projectName config @ ''-off-chain'')),
              (''version'', JString ''0.1.0''),
              (''type'', JString ''module''),
              (''dependencies'',
                 JObject [(''ethers'', JString ''^6.9.2''), (''dotenv'', JString ''^16.3.1'')])]"

text \<open>
  \<^verbatim>\<open>fs.writeJSON(file, obj, { spaces: 2 })\<close> writes the indented text and a final
  newline.
\<close>

definition writeJSON_text :: "json \<Rightarrow> string" where
  "writeJSON_text obj = json_stringify 0 obj @ ''\<newline>''"

definition generateOffChainComponents :: "path \<Rightarrow> config \<Rightarrow> prog" where
  "generateOffChainComponents projectPath config =
     steps
       [perform (WriteFile (path_join projectPath ''off-chain/aggregator/index.ts'') getAggregatorCode),
        perform (WriteFile (path_join projectPath ''off-chain/executor/index.ts'') getExecutorCode),
        perform (WriteFile (path_join projectPath ''off-chain/package.json'')
                   (writeJSON_text (offChainPackageJson config)))]"

text \<open>The block \<^verbatim>\<open>// Copy contract templates\<close> of \<^verbatim>\<open>createProjectStructure\<close>.\<close>

definition copyContractTemplates :: "env \<Rightarrow> path \<Rightarrow> prog" where
  "copyContractTemplates e projectPath s =
     (let contractsPath = path_join (dirname e) ''../../contracts'' in
      if pathExists contractsPath (files s) then
        steps
          [perform (Copy (path_join contractsPath ''interfaces'')
                         (path_join projectPath ''contracts/interfaces'')),
           perform (Copy (path_join contractsPath ''TaskMailbox.sol'')
                         (path_join projectPath ''contracts/TaskMailbox.sol'')),
           perform (Copy (path_join contractsPath ''TaskAVSRegistrar.sol'')
                         (path_join projectPath ''contracts/TaskAVSRegistrar.sol'')),
           perform (Copy (path_join contractsPath ''SlashingConditions.sol'')
                         (path_join projectPath ''contracts/SlashingConditions.sol''))] s
      else (Inr (), s))"

text \<open>
  The block \<^verbatim>\<open>// Generate package.json\<close>: the body of the bundled template, or the
  built-in one when reading it fails (\<^verbatim>\<open>.catch\<close>), rendered with \<^verbatim>\<open>config\<close> and
  written.
\<close>

definition loadTemplate :: "env \<Rightarrow> fs \<Rightarrow> string" where
  "loadTemplate e fs =
     (case readFile (path_join (dirname e) ''../templates/package.json.hbs'') fs of
        Inl err \<Rightarrow> getDefaultPackageJsonTemplate
      | Inr body \<Rightarrow> body)"

definition generatePackageJson :: "env \<Rightarrow> path \<Rightarrow> config \<Rightarrow> prog" where
  "generatePackageJson e projectPath config s =
     (case Handlebars_compile (loadTemplate e (files s)) (context_of config) of
        None \<Rightarrow> (Inl TemplateError, s)
      | Some text \<Rightarrow> perform (WriteFile (path_join projectPath ''package.json'') text) s)"

definition createProjectStructure :: "env \<Rightarrow> path \<Rightarrow> config \<Rightarrow> prog" where
  "createProjectStructure e projectPath config =
     steps
       [perform (EnsureDir (path_join projectPath ''contracts'')),
        perform (EnsureDir (path_join projectPath ''contracts/interfaces'')),
        perform (EnsureDir (path_join projectPath ''scripts'')),
        perform (EnsureDir (path_join projectPath ''test'')),
        perform (EnsureDir (path_join projectPath ''off-chain'')),
        perform (EnsureDir (path_join projectPath ''off-chain/aggregator'')),
        perform (EnsureDir (path_join projectPath ''off-chain/executor'')),
        copyContractTemplates e projectPath,
        generatePackageJson e projectPath config,
        perform (WriteFile (path_join projectPath ''hardhat.config.ts'') getHardhatConfig),
        perform (WriteFile (path_join projectPath ''scripts/deploy.ts'') getDeployScript),
        perform (WriteFile (path_join projectPath ''test/TaskMailbox.test.ts'') getTestFile),
        generateOffChainComponents projectPath config]"

definition scaffoldProject :: "env \<Rightarrow> string \<Rightarrow> string \<Rightarrow> prog" where
  "scaffoldProject e name tmpl s =
     (let projectPath = path_join (cwd e) name in
      if pathExists projectPath (files s) then (Inl (DirectoryExists name), s)
      else (case prompt e name tmpl of
              Inl err \<Rightarrow> (Inl err, s)
            | Inr answers \<Rightarrow>
                steps
                  [perform (EnsureDir projectPath),
                   console_log (''Created directory: '' @ projectName answers),
                   createProjectStructure e projectPath answers,
                   console_log ''Project scaffolded successfully!''] s))"

section \<open>What the properties are stated with\<close>

text \<open>
  The text of \<^verbatim>\<open>getDefaultPackageJsonTemplate\<close> with \<open>n\<close> and \<open>d\<close> in the places of its two
  mustaches.
\<close>

definition root_package_json :: "string \<Rightarrow> string \<Rightarrow> string" where
  \<open>root_package_json n d =
     ''{\<newline>'' @
     ''  "name": "'' @ n @ ''",\<newline>'' @
     ''  "version": "0.1.0",\<newline>'' @
     ''  "description": "'' @ d @ ''",\<newline>'' @
     ''  "scripts": {\<newline>'' @
     ''    "compile": "hardhat compile",\<newline>'' @
     ''    "test": "hardhat test",\<newline>'' @
     ''    "deploy": "hardhat run scripts/deploy.ts"\<newline>'' @
     ''  },\<newline>'' @
     ''  "devDependencies": {\<newline>'' @
     ''    "@nomicfoundation/hardhat-toolbox": "^4.0.0",\<newline>'' @
     ''    "hardhat": "^2.19.4",\<newline>'' @
     ''    "typescript": "^5.3.3"\<newline>'' @
     ''  }\<newline>'' @
     ''}''\<close>



text \<open>
  Over a sequence of operations: every write and every copy goes into a directory that
  an earlier \<^verbatim>\<open>ensureDir\<close> of the sequence (or of \<open>made\<close>) has named; and the
  sequence, unless empty, starts with \<^verbatim>\<open>ensureDir\<close> of \<open>p\<close>.
\<close>

fun dirs_before_writes :: "path list \<Rightarrow> op list \<Rightarrow> bool" where
  "dirs_before_writes made [] = True"
| "dirs_before_writes made (EnsureDir p # xs) = dirs_before_writes (p # made) xs"
| "dirs_before_writes made (WriteFile p c # xs) =
     (butlast p \<in> set made \<and> dirs_before_writes made xs)"
| "dirs_before_writes made (Copy src dst # xs) =
     (butlast dst \<in> set made \<and> dirs_before_writes made xs)"

definition root_first :: "path \<Rightarrow> op list \<Rightarrow> bool" where
  "root_first p xs = (case xs of [] \<Rightarrow> True | x # ys \<Rightarrow> x = EnsureDir p)"

text \<open>
  A program \<open>emits\<close> a set of sequences when each of its runs adds one of them to the
  trace if it succeeds, and a prefix of one if it fails; \<open>and_then\<close> is sequencing.
\<close>

definition extends_by :: "(error + unit) \<times> state \<Rightarrow> state \<Rightarrow> op list \<Rightarrow> bool" where
  "extends_by res s xs =
     (case res of
        (Inr u, s') \<Rightarrow> trace s' = trace s @ xs
      | (Inl e, s') \<Rightarrow> (\<exists>k. trace s' = trace s @ take k xs))"

definition emits :: "prog \<Rightarrow> op list set \<Rightarrow> bool" where
  "emits m A = (\<forall>s. \<exists>xs\<in>A. extends_by (m s) s xs)"

definition and_then :: "prog \<Rightarrow> prog \<Rightarrow> prog" where
  "and_then m n s = (case m s of (Inl e, s') \<Rightarrow> (Inl e, s') | (Inr u, s') \<Rightarrow> n s')"

text \<open>The three paths that \<^verbatim>\<open>scaffold.ts\<close> computes, and the operations of a full run.\<close>

definition target_path :: "env \<Rightarrow> string \<Rightarrow> path" where
  "target_path e name = path_join (cwd e) name"

definition bundled_contracts :: "env \<Rightarrow> path" where
  "bundled_contracts e = path_join (dirname e) ''../../contracts''"

definition bundled_template :: "env \<Rightarrow> path" where
  "bundled_template e = path_join (dirname e) ''../templates/package.json.hbs''"

definition project_dirs :: "path list" where
  "project_dirs =
     [[''contracts''], [''contracts'', ''interfaces''], [''scripts''], [''test''],
      [''off-chain''], [''off-chain'', ''aggregator''], [''off-chain'', ''executor'']]"

definition directory_ops :: "path \<Rightarrow> op list" where
  "directory_ops pp = map (\<lambda>d. EnsureDir (pp @ d)) project_dirs"

definition copy_ops :: "path \<Rightarrow> path \<Rightarrow> op list" where
  "copy_ops cp pp =
     [Copy (cp @ [''interfaces'']) (pp @ [''contracts'', ''interfaces'']),
      Copy (cp @ [''TaskMailbox.sol'']) (pp @ [''contracts'', ''TaskMailbox.sol'']),
      Copy (cp @ [''TaskAVSRegistrar.sol'']) (pp @ [''contracts'', ''TaskAVSRegistrar.sol'']),
      Copy (cp @ [''SlashingConditions.sol'']) (pp @ [''contracts'', ''SlashingConditions.sol''])]"

definition write_ops :: "path \<Rightarrow> config \<Rightarrow> string \<Rightarrow> op list" where
  "write_ops pp config text =
     [WriteFile (pp @ [''package.json'']) text,
      WriteFile (pp @ [''hardhat.config.ts'']) getHardhatConfig,
      WriteFile (pp @ [''scripts'', ''deploy.ts'']) getDeployScript,
      WriteFile (pp @ [''test'', ''TaskMailbox.test.ts'']) getTestFile,
      WriteFile (pp @ [''off-chain'', ''aggregator'', ''index.ts'']) getAggregatorCode,
      WriteFile (pp @ [''off-chain'', ''executor'', ''index.ts'']) getExecutorCode,
      WriteFile (pp @ [''off-chain'', ''package.json''])
        (writeJSON_text (offChainPackageJson config))]"

definition run_ops :: "path \<Rightarrow> path \<Rightarrow> bool \<Rightarrow> config \<Rightarrow> string \<Rightarrow> op list" where
  "run_ops pp cp copied config text =
     EnsureDir pp # directory_ops pp @ (if copied then copy_ops cp pp else []) @
     write_ops pp config text"

definition generated_files :: "config \<Rightarrow> string \<Rightarrow> (path \<times> string) list" where
  "generated_files config text =
     [([''package.json''], text),
      ([''hardhat.config.ts''], getHardhatConfig),
      ([''scripts'', ''deploy.ts''], getDeployScript),
      ([''test'', ''TaskMailbox.test.ts''], getTestFile),
      ([''off-chain'', ''aggregator'', ''index.ts''], getAggregatorCode),
      ([''off-chain'', ''executor'', ''index.ts''], getExecutorCode),
      ([''off-chain'', ''package.json''], writeJSON_text (offChainPackageJson config))]"

definition contract_files :: "path list" where
  "contract_files =
     [[''contracts'', ''TaskMailbox.sol''], [''contracts'', ''TaskAVSRegistrar.sol''],
      [''contracts'', ''SlashingConditions.sol'']]"

text \<open>
  The conditions on the file system at the start: the target is absent with no regular
  file among its ancestors; the four bundled contract sources are there; or the bundled
  contracts directory is absent and none of the directories the run makes takes its
  place.
\<close>

definition can_create :: "fs \<Rightarrow> path \<Rightarrow> bool" where
  "can_create fs p = (stat fs p = None \<and> list_all (\<lambda>q. \<not> is_file (stat fs q)) (prefixes p))"

definition contracts_bundled :: "env \<Rightarrow> fs \<Rightarrow> bool" where
  "contracts_bundled e fs =
     (stat fs (bundled_contracts e @ [''interfaces'']) = Some D \<and>
      is_file (stat fs (bundled_contracts e @ [''TaskMailbox.sol''])) \<and>
      is_file (stat fs (bundled_contracts e @ [''TaskAVSRegistrar.sol''])) \<and>
      is_file (stat fs (bundled_contracts e @ [''SlashingConditions.sol''])))"

definition contracts_missing :: "env \<Rightarrow> fs \<Rightarrow> path \<Rightarrow> bool" where
  "contracts_missing e fs pp =
     (stat fs (bundled_contracts e) = None \<and> \<not> prefix (bundled_contracts e) pp \<and>
      bundled_contracts e \<notin> set (map ((@) pp) project_dirs))"

text \<open>
  The entry at \<open>q\<close> below the project directory after a full run: a generated file, one
  of the directories, or, when the contracts were copied, what the bundle has at that
  place (\<open>m\<close> is the file system at the start, \<open>cp\<close> the bundled contracts).
\<close>

definition project_tree ::
  "(path \<rightharpoonup> entry) \<Rightarrow> path \<Rightarrow> bool \<Rightarrow> config \<Rightarrow> string \<Rightarrow> path \<Rightarrow> entry option" where
  "project_tree m cp copied config t q =
     (case map_of (generated_files config t) q of
        Some c \<Rightarrow> Some (F c)
      | None \<Rightarrow>
          if q = [] \<or> q \<in> set project_dirs then Some D
          else if copied \<and> (q \<in> set contract_files \<or> prefix [''contracts'', ''interfaces''] q)
            then m (cp @ tl q)
          else None)"





text \<open>The text of \<^verbatim>\<open>off-chain/package.json\<close> around the quoted name.\<close>

definition off_chain_text :: "string \<Rightarrow> string" where
  \<open>off_chain_text quoted_name =
     ''{\<newline>'' @
     ''  "name": '' @ quoted_name @ '',\<newline>'' @
     ''  "version": "0.1.0",\<newline>'' @
     ''  "type": "module",\<newline>'' @
     ''  "dependencies": {\<newline>'' @
     ''    "ethers": "^6.9.2",\<newline>'' @
     ''    "dotenv": "^16.3.1"\<newline>'' @
     ''  }\<newline>'' @
     ''}\<newline>''\<close>

definition json_plain :: "char \<Rightarrow> bool" where
  \<open>json_plain c = (c \<noteq> CHR ''"'' \<and> c \<noteq> CHR 0x5C \<and> 32 \<le> (of_char c :: nat))\<close>


section \<open>Installations to run the generator on\<close>

text \<open>
  The tool installed under \<^verbatim>\<open>/opt/avs\<close>, the module in \<^verbatim>\<open>/opt/avs/dist/generators\<close>, run
  from \<^verbatim>\<open>/home/dev\<close>. \<open>bare_install\<close> has neither the bundled contracts nor the
  bundled template, \<open>contracts_install\<close> has the contracts only, \<open>full_install\<close>
  has both.
\<close>

definition demo_answers :: config where
  "demo_answers = \<lparr>projectName = ''demo'', template = TaskBased, description = ''x''\<rparr>"

definition demo_env :: env where
  "demo_env =
     \<lparr>cwd = [''home'', ''dev''],
      dirname = [''opt'', ''avs'', ''dist'', ''generators''],
      prompt = (\<lambda>name tmpl. Inr demo_answers)\<rparr>"

definition bare_install :: fs where
  "bare_install =
     [([], D), ([''home''], D), ([''home'', ''dev''], D), ([''opt''], D),
      ([''opt'', ''avs''], D), ([''opt'', ''avs'', ''dist''], D),
      ([''opt'', ''avs'', ''dist'', ''generators''], D)]"

definition contracts_install :: fs where
  "contracts_install =
     [([''opt'', ''avs'', ''contracts''], D),
      ([''opt'', ''avs'', ''contracts'', ''interfaces''], D),
      ([''opt'', ''avs'', ''contracts'', ''interfaces'', ''ITaskMailbox.sol''],
         F ''interface ITaskMailbox {}''),
      ([''opt'', ''avs'', ''contracts'', ''TaskMailbox.sol''], F ''contract TaskMailbox {}''),
      ([''opt'', ''avs'', ''contracts'', ''TaskAVSRegistrar.sol''],
         F ''contract TaskAVSRegistrar {}''),
      ([''opt'', ''avs'', ''contracts'', ''SlashingConditions.sol''],
         F ''contract SlashingConditions {}'')] @
     bare_install"

definition full_install :: fs where
  \<open>full_install =
     [([''opt'', ''avs'', ''dist'', ''templates''], D),
      ([''opt'', ''avs'', ''dist'', ''templates'', ''package.json.hbs''],
         F ''{ "name": "{{projectName}}", "template": "{{template}}" }'')] @
     contracts_install\<close>

definition start :: "fs \<Rightarrow> state" where
  "start fs = \<lparr>files = fs, trace = [], console = []\<rparr>"

text \<open>The same tool run from its own package directory, \<^verbatim>\<open>/opt/avs\<close>.\<close>

definition package_env :: env where
  "package_env = demo_env\<lparr>cwd := [''opt'', ''avs'']\<rparr>"

text \<open>\<open>full_install\<close> with a regular file \<^verbatim>\<open>/home/dev/notes\<close>.\<close>

definition notes_install :: fs where
  "notes_install = ([''home'', ''dev'', ''notes''], F ''to do'') # full_install"

text \<open>The same run with \<^verbatim>\<open>oracle\<close> chosen at the prompt.\<close>

definition oracle_env :: env where
  "oracle_env = demo_env\<lparr>prompt := (\<lambda>name tmpl. Inr (demo_answers\<lparr>template := Oracle\<rparr>))\<rparr>"

section \<open>The file-system operations\<close>

lemma map_of_dirs: "map_of (map (\<lambda>q. (q, D)) qs) x = (if x \<in> set qs then Some D else None)"
  by (induction qs) auto

lemma not_file_cases: "\<not> is_file v \<Longrightarrow> v = None \<or> v = Some D"
  by (cases v rule: is_file.cases) auto

lemma ensureDir_ok:
  assumes a: "\<forall>q. prefix q p \<longrightarrow> \<not> is_file (stat fs q)"
  shows "\<exists>fs'. ensureDir p fs = Inr fs' \<and>
           (\<forall>x. stat fs' x = (if prefix x p then Some D else stat fs x))"
proof -
  have "find (\<lambda>q. is_file (stat fs q)) (prefixes p) = None"
    using a by (simp add: find_None_iff)
  moreover have "stat fs x = Some D" if "prefix x p" "stat fs x \<noteq> None" for x
  proof -
    from a that have "\<not> is_file (stat fs x)" by simp
    then show ?thesis using that not_file_cases [of "stat fs x"] by auto
  qed
  ultimately show ?thesis
    by (auto simp: ensureDir_def map_of_dirs map_add_def split: option.splits)
qed

lemma ensureDir_Inr:
  assumes "ensureDir p fs = Inr fs'"
  shows "(\<forall>q. prefix q p \<longrightarrow> \<not> is_file (stat fs q)) \<and>
         (\<forall>x. stat fs' x = (if prefix x p then Some D else stat fs x))"
proof -
  have n: "find (\<lambda>q. is_file (stat fs q)) (prefixes p) = None"
    using assms by (auto simp: ensureDir_def split: option.splits)
  then have a: "\<forall>q. prefix q p \<longrightarrow> \<not> is_file (stat fs q)"
    by (simp add: find_None_iff)
  from ensureDir_ok [OF a] assms show ?thesis
    using a by auto
qed

lemma writeFile_Inr:
  "writeFile p c fs = Inr fs' \<longleftrightarrow>
     p \<noteq> [] \<and> stat fs (butlast p) = Some D \<and> stat fs p \<noteq> Some D \<and> fs' = (p, F c) # fs"
  by (auto simp: writeFile_def split: if_splits option.splits entry.splits)

lemma copy_items_map:
  "map_of (map (\<lambda>(q, e). (dst @ q, e)) (copy_items src fs)) x =
     (if prefix dst x then stat fs (src @ drop (length dst) x) else None)"
proof (induction fs)
  case Nil
  then show ?case by (simp add: copy_items_def)
next
  case (Cons a fs)
  obtain p e where a: "a = (p, e)" by (cases a)
  show ?case
  proof (cases "prefix src p")
    case True
    then obtain r where r: "p = src @ r" by (auto simp: prefix_def)
    have "(dst @ r = x) = (prefix dst x \<and> src @ drop (length dst) x = src @ r)"
      by (auto simp: prefix_def)
    with Cons r a show ?thesis
      by (auto simp: copy_items_def)
  next
    case False
    then have "\<And>y. src @ y \<noteq> p" by (auto simp: prefix_def)
    with Cons a False show ?thesis
      by (auto simp: copy_items_def)
  qed
qed

lemma copy_clash_iff:
  "copy_clash src dst fs \<longleftrightarrow>
     (\<exists>q a b. stat fs (src @ q) = Some a \<and> stat fs (dst @ q) = Some b \<and> \<not> same_kind a b)"
proof
  assume "copy_clash src dst fs"
  then obtain q e where "(q, e) \<in> set (copy_items src fs)"
    and c: "(case (stat fs (src @ q), stat fs (dst @ q)) of
              (Some a, Some b) \<Rightarrow> \<not> same_kind a b | _ \<Rightarrow> False)"
    by (auto simp: copy_clash_def list_ex_iff)
  from c obtain a b where "stat fs (src @ q) = Some a" "stat fs (dst @ q) = Some b" "\<not> same_kind a b"
    by (cases "stat fs (src @ q)"; cases "stat fs (dst @ q)") auto
  then show "\<exists>q a b. stat fs (src @ q) = Some a \<and> stat fs (dst @ q) = Some b \<and> \<not> same_kind a b"
    by blast
next
  assume "\<exists>q a b. stat fs (src @ q) = Some a \<and> stat fs (dst @ q) = Some b \<and> \<not> same_kind a b"
  then obtain q a b where h: "stat fs (src @ q) = Some a" "stat fs (dst @ q) = Some b" "\<not> same_kind a b"
    by blast
  from h(1) have "(src @ q, a) \<in> set fs" by (rule map_of_SomeD)
  then have "(src @ q, a) \<in> set (filter (\<lambda>(p, e). prefix src p) fs)"
    by simp
  then have "(\<lambda>(p, e). (drop (length src) p, e)) (src @ q, a) \<in> set (copy_items src fs)"
    unfolding copy_items_def set_map by (rule imageI)
  then have "(q, a) \<in> set (copy_items src fs)"
    by simp
  with h show "copy_clash src dst fs"
    unfolding copy_clash_def list_ex_iff by (intro bexI [of _ "(q, a)"]) simp_all
qed

lemma copy_Inr:
  assumes "copy src dst fs = Inr fs'"
  shows "\<exists>fs1. ensureDir (butlast dst) fs = Inr fs1 \<and> stat fs src \<noteq> None \<and> \<not> copy_clash src dst fs1 \<and>
           (\<forall>x. stat fs' x =
              (if prefix dst x \<and> stat fs1 (src @ drop (length dst) x) \<noteq> None
               then stat fs1 (src @ drop (length dst) x) else stat fs1 x))"
proof -
  from assms obtain se where se: "stat fs src = Some se"
    by (cases "stat fs src") (auto simp: copy_def)
  from assms se obtain fs1 where e: "ensureDir (butlast dst) fs = Inr fs1"
    by (cases "ensureDir (butlast dst) fs") (auto simp: copy_def split: if_splits)
  from assms se e have c: "\<not> copy_clash src dst fs1"
    and f: "fs' = map (\<lambda>(q, e). (dst @ q, e)) (copy_items src fs1) @ fs1"
    by (auto simp: copy_def split: if_splits)
  have "\<forall>x. stat fs' x =
              (if prefix dst x \<and> stat fs1 (src @ drop (length dst) x) \<noteq> None
               then stat fs1 (src @ drop (length dst) x) else stat fs1 x)"
    unfolding f by (auto simp: copy_items_map map_add_def split: option.splits)
  with se e c show ?thesis by blast
qed

section \<open>Rendering with Handlebars\<close>

lemma split_projectName:
  "split_mustache (''projectName}}'' @ rest) = Some (''projectName'', rest)"
  by (simp add: split_mustache_def hb_space_def hb_id_char_def hb_id_start_def hb_reserved_def)

lemma split_description:
  "split_mustache (''description}}'' @ rest) = Some (''description'', rest)"
  by (simp add: split_mustache_def hb_space_def hb_id_char_def hb_id_start_def hb_reserved_def)

lemma default_render:
  "Handlebars_compile getDefaultPackageJsonTemplate (context_of config) =
     Some (root_package_json (escapeExpression (projectName config)) (escapeExpression (description config)))"
  using split_projectName split_description
  by (simp add: getDefaultPackageJsonTemplate_def root_package_json_def context_of_def mustache_value_def)









section \<open>The operations a run makes, in order\<close>

lemma extends_by_Inr: "extends_by (Inr u, s') s xs \<longleftrightarrow> trace s' = trace s @ xs"
  by (simp add: extends_by_def)

lemma extends_by_Inl: "extends_by (Inl e, s') s xs \<longleftrightarrow> (\<exists>k. trace s' = trace s @ take k xs)"
  by (simp add: extends_by_def)

lemma emitsI: "(\<And>s. \<exists>xs\<in>A. extends_by (m s) s xs) \<Longrightarrow> emits m A"
  by (simp add: emits_def)

lemma emitsD: "emits m A \<Longrightarrow> \<exists>xs\<in>A. extends_by (m s) s xs"
  by (simp add: emits_def)

lemma emits_perform: "emits (perform x) {[x]}"
proof (rule emitsI)
  fix s
  show "\<exists>xs\<in>{[x]}. extends_by (perform x s) s xs"
  proof (cases "apply_op x (files s)")
    case (Inl e)
    then have "perform x s = (Inl e, s)" by (simp add: perform_def)
    moreover have "trace s = trace s @ take 0 [x]" by simp
    ultimately show ?thesis unfolding extends_by_Inl by (metis extends_by_Inl singletonI)
  next
    case (Inr fs')
    then show ?thesis by (simp add: perform_def extends_by_Inr)
  qed
qed

lemma emits_console_log: "emits (console_log msg) {[]}"
  by (rule emitsI) (simp add: console_log_def extends_by_Inr)

lemma emits_steps_Nil: "emits (steps []) {[]}"
  by (rule emitsI) (simp add: extends_by_Inr)

lemma steps_Cons_and_then: "steps (m # ms) = and_then m (steps ms)"
  by (rule ext) (simp add: and_then_def)

lemma steps_append: "steps (xs @ ys) = and_then (steps xs) (steps ys)"
proof (induction xs)
  case Nil
  show ?case by (rule ext) (simp add: and_then_def)
next
  case (Cons m xs)
  show ?case
  proof (rule ext)
    fix s
    show "steps ((m # xs) @ ys) s = and_then (steps (m # xs)) (steps ys) s"
      using Cons by (cases "m s" rule: prod.exhaust) (auto simp: and_then_def split: sum.splits)
  qed
qed

lemma emits_and_then:
  assumes m: "emits m A" and ms: "emits n B"
  shows "emits (and_then m n) {a @ b |a b. a \<in> A \<and> b \<in> B}"
proof (rule emitsI)
  fix s
  from emitsD [OF m, of s] obtain a where a: "a \<in> A" and ma: "extends_by (m s) s a"
    by (rule bexE)
  obtain r s1 where r: "m s = (r, s1)" by (cases "m s")
  show "\<exists>xs\<in>{a @ b |a b. a \<in> A \<and> b \<in> B}. extends_by (and_then m n s) s xs"
  proof (cases r)
    case (Inl e)
    from emitsD [OF ms, of s] obtain b where b: "b \<in> B" by (rule bexE)
    from ma r Inl obtain k where k: "trace s1 = trace s @ take k a"
      by (auto simp: extends_by_Inl)
    have "take k a = take (min k (length a)) (a @ b)"
      by (cases "k \<le> length a") (simp_all add: min_def)
    with k have "trace s1 = trace s @ take (min k (length a)) (a @ b)" by simp
    then have "\<exists>j. trace s1 = trace s @ take j (a @ b)" by (rule exI)
    then have "extends_by (Inl e, s1) s (a @ b)" unfolding extends_by_Inl .
    moreover have "and_then m n s = (Inl e, s1)" using r Inl by (simp add: and_then_def)
    ultimately have "extends_by (and_then m n s) s (a @ b)" by simp
    with a b show ?thesis by blast
  next
    case (Inr u)
    with ma r have t1: "trace s1 = trace s @ a" by (simp add: extends_by_Inr)
    from emitsD [OF ms, of s1] obtain b where b: "b \<in> B" and mb: "extends_by (n s1) s1 b"
      by (rule bexE)
    obtain r2 s2 where r2: "n s1 = (r2, s2)" by (cases "n s1")
    have "extends_by (and_then m n s) s (a @ b)"
    proof (cases r2)
      case (Inl e)
      with mb r2 obtain k where "trace s2 = trace s1 @ take k b"
        by (auto simp: extends_by_Inl)
      then have "trace s2 = trace s @ take (length a + k) (a @ b)"
        using t1 by simp
      then have "\<exists>j. trace s2 = trace s @ take j (a @ b)" by (rule exI)
      then have "extends_by (Inl e, s2) s (a @ b)" unfolding extends_by_Inl .
      moreover have "and_then m n s = (Inl e, s2)"
        using r \<open>r = Inr u\<close> r2 Inl by (simp add: and_then_def)
      ultimately show ?thesis by simp
    next
      case (Inr u2)
      with mb r2 t1 have "trace s2 = trace s @ a @ b" by (simp add: extends_by_Inr)
      with r \<open>r = Inr u\<close> r2 Inr show ?thesis by (simp add: extends_by_Inr and_then_def)
    qed
    with a b show ?thesis by blast
  qed
qed

lemma emits_one: "emits m {a} \<Longrightarrow> emits n {b} \<Longrightarrow> emits (and_then m n) {a @ b}"
  using emits_and_then [of m "{a}" n "{b}"] by simp

lemma emits_performs: "emits (steps (map perform xs)) {xs}"
proof (induction xs)
  case Nil
  show ?case by (rule emitsI) (simp add: extends_by_Inr)
next
  case (Cons x xs)
  from emits_one [OF emits_perform Cons, of x] show ?case
    by (simp add: steps_Cons_and_then)
qed

lemma emits_mono: "emits m A \<Longrightarrow> A \<subseteq> B \<Longrightarrow> emits m B"
  unfolding emits_def by blast

lemma path_join_literals:
  "path_join p ''contracts'' = p @ [''contracts'']"
  "path_join p ''contracts/interfaces'' = p @ [''contracts'', ''interfaces'']"
  "path_join p ''scripts'' = p @ [''scripts'']"
  "path_join p ''test'' = p @ [''test'']"
  "path_join p ''off-chain'' = p @ [''off-chain'']"
  "path_join p ''off-chain/aggregator'' = p @ [''off-chain'', ''aggregator'']"
  "path_join p ''off-chain/executor'' = p @ [''off-chain'', ''executor'']"
  "path_join p ''interfaces'' = p @ [''interfaces'']"
  "path_join p ''TaskMailbox.sol'' = p @ [''TaskMailbox.sol'']"
  "path_join p ''TaskAVSRegistrar.sol'' = p @ [''TaskAVSRegistrar.sol'']"
  "path_join p ''SlashingConditions.sol'' = p @ [''SlashingConditions.sol'']"
  "path_join p ''contracts/TaskMailbox.sol'' = p @ [''contracts'', ''TaskMailbox.sol'']"
  "path_join p ''contracts/TaskAVSRegistrar.sol'' = p @ [''contracts'', ''TaskAVSRegistrar.sol'']"
  "path_join p ''contracts/SlashingConditions.sol'' = p @ [''contracts'', ''SlashingConditions.sol'']"
  "path_join p ''package.json'' = p @ [''package.json'']"
  "path_join p ''hardhat.config.ts'' = p @ [''hardhat.config.ts'']"
  "path_join p ''scripts/deploy.ts'' = p @ [''scripts'', ''deploy.ts'']"
  "path_join p ''test/TaskMailbox.test.ts'' = p @ [''test'', ''TaskMailbox.test.ts'']"
  "path_join p ''off-chain/aggregator/index.ts'' = p @ [''off-chain'', ''aggregator'', ''index.ts'']"
  "path_join p ''off-chain/executor/index.ts'' = p @ [''off-chain'', ''executor'', ''index.ts'']"
  "path_join p ''off-chain/package.json'' = p @ [''off-chain'', ''package.json'']"
  by (simp_all add: path_join_def path_step_def)

lemma emits_generateOffChainComponents:
  "emits (generateOffChainComponents pp config)
     {[WriteFile (pp @ [''off-chain'', ''aggregator'', ''index.ts'']) getAggregatorCode,
       WriteFile (pp @ [''off-chain'', ''executor'', ''index.ts'']) getExecutorCode,
       WriteFile (pp @ [''off-chain'', ''package.json''])
         (writeJSON_text (offChainPackageJson config))]}"
  using emits_performs [of "[WriteFile (pp @ [''off-chain'', ''aggregator'', ''index.ts'']) getAggregatorCode,
       WriteFile (pp @ [''off-chain'', ''executor'', ''index.ts'']) getExecutorCode,
       WriteFile (pp @ [''off-chain'', ''package.json''])
         (writeJSON_text (offChainPackageJson config))]"]
  by (simp add: generateOffChainComponents_def path_join_literals)

lemma emits_copyContractTemplates:
  "emits (copyContractTemplates e pp) {[], copy_ops (bundled_contracts e) pp}"
proof (rule emitsI)
  fix s
  show "\<exists>xs\<in>{[], copy_ops (bundled_contracts e) pp}. extends_by (copyContractTemplates e pp s) s xs"
  proof (cases "pathExists (bundled_contracts e) (files s)")
    case True
    then have "copyContractTemplates e pp s = steps (map perform (copy_ops (bundled_contracts e) pp)) s"
      by (simp add: copyContractTemplates_def bundled_contracts_def copy_ops_def path_join_literals Let_def)
    with emitsD [OF emits_performs, of "copy_ops (bundled_contracts e) pp" s] show ?thesis
      by simp
  next
    case False
    then have "copyContractTemplates e pp s = (Inr (), s)"
      by (simp add: copyContractTemplates_def bundled_contracts_def Let_def)
    then show ?thesis by (simp add: extends_by_Inr)
  qed
qed

lemma emits_generatePackageJson:
  "emits (generatePackageJson e pp config) {[WriteFile (pp @ [''package.json'']) text] |text. True}"
proof (rule emitsI)
  fix s
  show "\<exists>xs\<in>{[WriteFile (pp @ [''package.json'']) text] |text. True}.
          extends_by (generatePackageJson e pp config s) s xs"
  proof (cases "Handlebars_compile (loadTemplate e (files s)) (context_of config)")
    case None
    then have "generatePackageJson e pp config s = (Inl TemplateError, s)"
      by (simp add: generatePackageJson_def)
    moreover have "extends_by (Inl TemplateError, s) s [WriteFile (pp @ [''package.json'']) []]"
      unfolding extends_by_Inl by (rule exI [of _ 0]) simp
    ultimately show ?thesis by auto
  next
    case (Some out)
    then have "generatePackageJson e pp config s = perform (WriteFile (pp @ [''package.json'']) out) s"
      by (simp add: generatePackageJson_def path_join_literals)
    with emitsD [OF emits_perform, of "WriteFile (pp @ [''package.json'']) out" s] show ?thesis
      by auto
  qed
qed

lemma createProjectStructure_seq:
  "createProjectStructure e pp config =
     and_then (steps (map perform (directory_ops pp)))
       (and_then (copyContractTemplates e pp)
          (and_then (generatePackageJson e pp config)
             (and_then (steps (map perform
                  [WriteFile (pp @ [''hardhat.config.ts'']) getHardhatConfig,
                   WriteFile (pp @ [''scripts'', ''deploy.ts'']) getDeployScript,
                   WriteFile (pp @ [''test'', ''TaskMailbox.test.ts'']) getTestFile]))
                (generateOffChainComponents pp config))))"
proof -
  have last: "steps [m] = m" for m :: prog
    by (rule ext) (auto split: prod.splits sum.splits)
  have "createProjectStructure e pp config =
          steps (map perform (directory_ops pp) @
                 [copyContractTemplates e pp, generatePackageJson e pp config] @
                 map perform
                  [WriteFile (pp @ [''hardhat.config.ts'']) getHardhatConfig,
                   WriteFile (pp @ [''scripts'', ''deploy.ts'']) getDeployScript,
                   WriteFile (pp @ [''test'', ''TaskMailbox.test.ts'']) getTestFile] @
                 [generateOffChainComponents pp config])"
    by (simp add: createProjectStructure_def directory_ops_def project_dirs_def path_join_literals)
  also have "\<dots> = and_then (steps (map perform (directory_ops pp)))
       (and_then (copyContractTemplates e pp)
          (and_then (generatePackageJson e pp config)
             (and_then (steps (map perform
                  [WriteFile (pp @ [''hardhat.config.ts'']) getHardhatConfig,
                   WriteFile (pp @ [''scripts'', ''deploy.ts'']) getDeployScript,
                   WriteFile (pp @ [''test'', ''TaskMailbox.test.ts'']) getTestFile]))
                (generateOffChainComponents pp config))))"
    unfolding steps_append append_Cons append_Nil
    by (simp only: steps_Cons_and_then [of "copyContractTemplates e pp"]
          steps_Cons_and_then [of "generatePackageJson e pp config"] steps_append last)
  finally show ?thesis .
qed

lemma emits_createProjectStructure:
  "emits (createProjectStructure e pp config)
     {directory_ops pp @ c @ write_ops pp config t |c t. c \<in> {[], copy_ops (bundled_contracts e) pp}}"
proof -
  note e1 = emits_and_then [OF emits_performs emits_generateOffChainComponents]
  note e2 = emits_and_then [OF emits_generatePackageJson e1]
  note e3 = emits_and_then [OF emits_copyContractTemplates e2]
  note e4 = emits_and_then [OF emits_performs e3]
  show ?thesis
    unfolding createProjectStructure_seq
    by (rule emits_mono [OF e4]) (auto simp: write_ops_def)
qed

lemma dirs_before_writes_take:
  "dirs_before_writes made xs \<Longrightarrow> dirs_before_writes made (take k xs)"
proof (induction xs arbitrary: made k)
  case Nil
  then show ?case by simp
next
  case (Cons x xs)
  show ?case
  proof (cases k)
    case 0
    then show ?thesis by simp
  next
    case (Suc j)
    with Cons show ?thesis by (cases x) auto
  qed
qed

lemma dirs_before_writes_run_ops:
  "dirs_before_writes [] (run_ops pp cp copied config t)"
  by (simp add: run_ops_def directory_ops_def project_dirs_def copy_ops_def write_ops_def
        butlast_append)

lemma root_first_take: "root_first pp (take k (run_ops pp cp copied config t))"
  by (cases k) (simp_all add: root_first_def run_ops_def)

lemma scaffoldProject_trace:
  "\<exists>copied config t k.
      trace (snd (scaffoldProject e name tmpl s)) =
        trace s @ take k (run_ops (target_path e name) (bundled_contracts e) copied config t)"
proof (cases "pathExists (target_path e name) (files s)")
  case True
  then have "trace (snd (scaffoldProject e name tmpl s)) = trace s @ take 0 (run_ops (target_path e name) (bundled_contracts e) False undefined [])"
    by (simp add: scaffoldProject_def target_path_def)
  then show ?thesis by blast
next
  case False
  show ?thesis
  proof (cases "prompt e name tmpl")
    case (Inl err)
    with False have "trace (snd (scaffoldProject e name tmpl s)) = trace s @ take 0 (run_ops (target_path e name) (bundled_contracts e) False undefined [])"
      by (simp add: scaffoldProject_def target_path_def)
    then show ?thesis by blast
  next
    case (Inr answers)
    let ?pp = "target_path e name"
    let ?body = "and_then (perform (EnsureDir ?pp))
           (and_then (console_log (''Created directory: '' @ projectName answers))
              (and_then (createProjectStructure e ?pp answers)
                 (console_log ''Project scaffolded successfully!'')))"
    have last: "and_then m (steps []) = m" for m :: prog
      by (rule ext) (auto simp: and_then_def split: prod.splits sum.splits)
    have run: "scaffoldProject e name tmpl s = ?body s"
      using False Inr
      by (simp add: scaffoldProject_def target_path_def Let_def steps_Cons_and_then last
            del: steps.simps)
    note e1 = emits_and_then [OF emits_createProjectStructure emits_console_log]
    note e2 = emits_and_then [OF emits_console_log e1]
    note e3 = emits_and_then [OF emits_perform e2]
    have "emits ?body {run_ops ?pp (bundled_contracts e) copied answers t |copied t. True}"
    proof (rule emits_mono [OF e3], rule subsetI)
      fix xs
      assume "xs \<in> {a @ b |a b. a \<in> {[EnsureDir ?pp]} \<and>
                  b \<in> {a @ b |a b. a \<in> {[]} \<and>
                     b \<in> {a @ b |a b.
                        a \<in> {directory_ops ?pp @ c @ write_ops ?pp answers t |c t.
                                c \<in> {[], copy_ops (bundled_contracts e) ?pp}} \<and> b \<in> {[]}}}}"
      then obtain c t where c: "c = [] \<or> c = copy_ops (bundled_contracts e) ?pp"
        and xs: "xs = EnsureDir ?pp # directory_ops ?pp @ c @ write_ops ?pp answers t"
        by auto
      from c have "xs = run_ops ?pp (bundled_contracts e) (c \<noteq> []) answers t"
        unfolding xs by (auto simp: run_ops_def copy_ops_def)
      then show "xs \<in> {run_ops ?pp (bundled_contracts e) copied answers t |copied t. True}"
        by blast
    qed
    from emitsD [OF this, of s] obtain copied t
      where x: "extends_by (?body s) s (run_ops ?pp (bundled_contracts e) copied answers t)"
      by auto
    obtain r s' where r: "?body s = (r, s')" by (cases "?body s")
    have "\<exists>k. trace s' = trace s @ take k (run_ops ?pp (bundled_contracts e) copied answers t)"
    proof (cases r)
      case (Inl err)
      with x r show ?thesis by (simp add: extends_by_Inl)
    next
      case (Inr u)
      with x r have "trace s' = trace s @ take (length (run_ops ?pp (bundled_contracts e) copied answers t))
                          (run_ops ?pp (bundled_contracts e) copied answers t)"
        by (simp add: extends_by_Inr)
      then show ?thesis by (rule exI)
    qed
    with run r show ?thesis by auto
  qed
qed

section \<open>The tree a run leaves\<close>

text \<open>
  The run in three phases: the directories, the copies of the bundled contracts, the
  generated files. Each phase is followed on a file system that is a tree, and
  \<open>scaffold_run\<close> puts them together.
\<close>

lemma tree_fs_parent:
  assumes "tree_fs fs" "stat fs x \<noteq> None" "x \<noteq> []"
  shows "stat fs (butlast x) = Some D"
proof -
  from assms(2) obtain e where "stat fs x = Some e" by auto
  then have "(x, e) \<in> set fs" by (rule map_of_SomeD)
  with assms(1) have "x = [] \<or> stat fs (butlast x) = Some D"
    unfolding tree_fs_def list_all_iff by auto
  with assms(3) show ?thesis by simp
qed

lemma tree_absent_below:
  assumes t: "tree_fs fs" and a: "stat fs p = None"
  shows "stat fs (p @ q) = None"
proof (induction q rule: rev_induct)
  case Nil
  from a show ?case by simp
next
  case (snoc a q)
  show ?case
  proof (rule ccontr)
    assume "stat fs (p @ q @ [a]) \<noteq> None"
    from tree_fs_parent [OF t this] have "stat fs (butlast (p @ q @ [a])) = Some D" by simp
    then have "stat fs (p @ q) = Some D" by (simp add: butlast_append)
    with snoc show False by simp
  qed
qed

lemma tree_file_below:
  assumes t: "tree_fs fs" and a: "stat fs p = Some (F c)" and q: "q \<noteq> []"
  shows "stat fs (p @ q) = None"
  using q
proof (induction q rule: rev_induct)
  case Nil
  then show ?case by simp
next
  case (snoc a q)
  show ?case
  proof (rule ccontr)
    assume "stat fs (p @ q @ [a]) \<noteq> None"
    from tree_fs_parent [OF t this] have "stat fs (butlast (p @ q @ [a])) = Some D" by simp
    then have d: "stat fs (p @ q) = Some D" by (simp add: butlast_append)
    show False
    proof (cases "q = []")
      case True
      with d a show False by simp
    next
      case False
      with snoc.IH d show False by simp
    qed
  qed
qed

lemma perform_EnsureDir:
  assumes "\<forall>q. prefix q p \<longrightarrow> \<not> is_file (stat (files s) q)"
  shows "\<exists>s'. perform (EnsureDir p) s = (Inr (), s') \<and> trace s' = trace s @ [EnsureDir p] \<and>
           console s' = console s \<and>
           (\<forall>x. stat (files s') x = (if prefix x p then Some D else stat (files s) x))"
proof -
  from ensureDir_ok [OF assms] obtain fs' where
    "ensureDir p (files s) = Inr fs'"
    "\<forall>x. stat fs' x = (if prefix x p then Some D else stat (files s) x)"
    by blast
  then show ?thesis
    by (simp add: perform_def)
qed


lemma ensureDir_existing:
  assumes "\<forall>q. prefix q p \<longrightarrow> stat fs q = Some D"
  shows "ensureDir p fs = Inr fs"
proof -
  have "find (\<lambda>q. is_file (stat fs q)) (prefixes p) = None"
    using assms by (simp add: find_None_iff)
  moreover have "filter (\<lambda>q. stat fs q = None) (prefixes p) = []"
    using assms by (simp add: filter_empty_conv)
  ultimately show ?thesis by (simp add: ensureDir_def)
qed

lemma copy_ok:
  assumes src: "stat fs src = Some se"
    and dst: "\<forall>de. stat fs dst = Some de \<longrightarrow> src \<noteq> dst \<and> same_kind se de"
    and into: "\<not> (se = D \<and> prefix src dst)"
    and parent: "\<forall>q. prefix q (butlast dst) \<longrightarrow> stat fs q = Some D"
    and clash: "\<forall>q a b. stat fs (src @ q) = Some a \<longrightarrow> stat fs (dst @ q) = Some b \<longrightarrow> same_kind a b"
  shows "\<exists>fs'. copy src dst fs = Inr fs' \<and>
           (\<forall>x. stat fs' x =
              (if prefix dst x \<and> stat fs (src @ drop (length dst) x) \<noteq> None
               then stat fs (src @ drop (length dst) x) else stat fs x))"
proof -
  have e: "ensureDir (butlast dst) fs = Inr fs" by (rule ensureDir_existing [OF parent])
  have c: "\<not> copy_clash src dst fs"
    unfolding copy_clash_iff using clash by blast
  have 1: "\<not> (stat fs dst \<noteq> None \<and> src = dst)" using dst by auto
  have 2: "\<not> (case stat fs dst of None \<Rightarrow> False | Some de \<Rightarrow> \<not> same_kind se de)"
    using dst by (cases "stat fs dst") auto
  have "copy src dst fs = Inr (map (\<lambda>(q, e). (dst @ q, e)) (copy_items src fs) @ fs)"
    unfolding copy_def using src 1 2 into e c by simp
  moreover have "\<forall>x. stat (map (\<lambda>(q, e). (dst @ q, e)) (copy_items src fs) @ fs) x =
              (if prefix dst x \<and> stat fs (src @ drop (length dst) x) \<noteq> None
               then stat fs (src @ drop (length dst) x) else stat fs x)"
    by (auto simp: copy_items_map map_add_def split: option.splits)
  ultimately show ?thesis by blast
qed

lemma perform_Copy:
  assumes src: "stat (files s) src = Some se"
    and dst: "\<forall>de. stat (files s) dst = Some de \<longrightarrow> src \<noteq> dst \<and> same_kind se de"
    and into: "\<not> (se = D \<and> prefix src dst)"
    and parent: "\<forall>q. prefix q (butlast dst) \<longrightarrow> stat (files s) q = Some D"
    and clash: "\<forall>q a b. stat (files s) (src @ q) = Some a \<longrightarrow> stat (files s) (dst @ q) = Some b \<longrightarrow> same_kind a b"
  shows "\<exists>s'. perform (Copy src dst) s = (Inr (), s') \<and> trace s' = trace s @ [Copy src dst] \<and>
           console s' = console s \<and>
           (\<forall>x. stat (files s') x =
              (if prefix dst x \<and> stat (files s) (src @ drop (length dst) x) \<noteq> None
               then stat (files s) (src @ drop (length dst) x) else stat (files s) x))"
proof -
  from copy_ok [OF src dst into parent clash] obtain fs' where
    "copy src dst (files s) = Inr fs'"
    "\<forall>x. stat fs' x =
              (if prefix dst x \<and> stat (files s) (src @ drop (length dst) x) \<noteq> None
               then stat (files s) (src @ drop (length dst) x) else stat (files s) x)"
    by blast
  then show ?thesis by (simp add: perform_def)
qed

lemma steps_EnsureDirs:
  assumes "\<forall>p\<in>set ps. \<forall>q. prefix q p \<longrightarrow> \<not> is_file (stat (files s) q)"
  shows "\<exists>s'. steps (map (\<lambda>p. perform (EnsureDir p)) ps) s = (Inr (), s') \<and>
           trace s' = trace s @ map EnsureDir ps \<and> console s' = console s \<and>
           (\<forall>x. stat (files s') x =
              (if \<exists>p\<in>set ps. prefix x p then Some D else stat (files s) x))"
  using assms
proof (induction ps arbitrary: s)
  case Nil
  then show ?case by simp
next
  case (Cons p ps)
  from Cons.prems have "\<forall>q. prefix q p \<longrightarrow> \<not> is_file (stat (files s) q)" by simp
  from perform_EnsureDir [OF this] obtain s1 where
    s1: "perform (EnsureDir p) s = (Inr (), s1)" "trace s1 = trace s @ [EnsureDir p]"
      "console s1 = console s"
    and st1: "\<forall>x. stat (files s1) x = (if prefix x p then Some D else stat (files s) x)"
    by blast
  have "\<forall>p\<in>set ps. \<forall>q. prefix q p \<longrightarrow> \<not> is_file (stat (files s1) q)"
    using Cons.prems st1 by simp
  from Cons.IH [OF this] obtain s' where
    s': "steps (map (\<lambda>p. perform (EnsureDir p)) ps) s1 = (Inr (), s')"
      "trace s' = trace s1 @ map EnsureDir ps" "console s' = console s1"
    and st': "\<forall>x. stat (files s') x =
              (if \<exists>p\<in>set ps. prefix x p then Some D else stat (files s1) x)"
    by blast
  have "\<forall>x. stat (files s') x =
              (if \<exists>q\<in>set (p # ps). prefix x q then Some D else stat (files s) x)"
    using st1 st' by simp
  with s1 s' show ?case by simp
qed

lemma prefix_one: "prefix q [a] \<longleftrightarrow> q = [] \<or> q = [a]"
  by (cases q) auto

lemma prefix_two: "prefix q [a, b] \<longleftrightarrow> q = [] \<or> q = [a] \<or> q = [a, b]"
  by (cases q) (auto simp: prefix_one)

lemma prefix_project_dirs:
  "(\<exists>d\<in>set project_dirs. prefix q d) \<longleftrightarrow> q = [] \<or> q \<in> set project_dirs"
  by (auto simp: project_dirs_def prefix_one prefix_two)

lemma prefix_outside:
  assumes "\<not> prefix pp x"
  shows "prefix x (pp @ d) \<longleftrightarrow> prefix x pp"
proof
  assume "prefix x (pp @ d)"
  moreover have "prefix pp (pp @ d)" by simp
  ultimately have "prefix x pp \<or> prefix pp x" by (rule prefix_same_cases)
  with assms show "prefix x pp" by simp
next
  assume "prefix x pp"
  then show "prefix x (pp @ d)" by (rule prefix_prefix)
qed

lemma build_directories:
  assumes H1: "stat (files s) pp = None" and H2: "tree_fs (files s)"
    and H3: "\<forall>q. prefix q pp \<longrightarrow> \<not> is_file (stat (files s) q)"
  shows "\<exists>sA. steps [perform (EnsureDir pp), console_log msg,
                      steps (map perform (directory_ops pp))] s = (Inr (), sA) \<and>
           trace sA = trace s @ EnsureDir pp # directory_ops pp \<and>
           console sA = console s @ [msg] \<and>
           (\<forall>q. stat (files sA) (pp @ q) =
              (if q = [] \<or> q \<in> set project_dirs then Some D else None)) \<and>
           (\<forall>x. \<not> prefix pp x \<longrightarrow>
              stat (files sA) x = (if prefix x pp then Some D else stat (files s) x))"
proof -
  from perform_EnsureDir [OF H3] obtain s1 where
    s1: "perform (EnsureDir pp) s = (Inr (), s1)" "trace s1 = trace s @ [EnsureDir pp]"
      "console s1 = console s"
    and st1: "\<forall>x. stat (files s1) x = (if prefix x pp then Some D else stat (files s) x)"
    by blast
  define s2 where "s2 = s1\<lparr>console := console s1 @ [msg]\<rparr>"
  have below: "stat (files s) (pp @ q) = None" for q
    by (rule tree_absent_below [OF H2 H1])
  have c2: "\<forall>p\<in>set (map ((@) pp) project_dirs). \<forall>q. prefix q p \<longrightarrow> \<not> is_file (stat (files s2) q)"
  proof (intro ballI allI impI)
    fix p q assume p: "p \<in> set (map ((@) pp) project_dirs)" and q: "prefix q p"
    from p obtain d where "p = pp @ d" by auto
    with q have "prefix q pp \<or> (\<exists>us. q = pp @ us)"
      by (auto simp: prefix_append)
    then show "\<not> is_file (stat (files s2) q)"
      using st1 below by (auto simp: s2_def)
  qed
  from steps_EnsureDirs [OF c2] obtain sA where
    sA: "steps (map (\<lambda>p. perform (EnsureDir p)) (map ((@) pp) project_dirs)) s2 = (Inr (), sA)"
      "trace sA = trace s2 @ map EnsureDir (map ((@) pp) project_dirs)" "console sA = console s2"
    and stA: "\<forall>x. stat (files sA) x =
              (if \<exists>p\<in>set (map ((@) pp) project_dirs). prefix x p then Some D else stat (files s2) x)"
    by blast
  have m: "map (\<lambda>p. perform (EnsureDir p)) (map ((@) pp) project_dirs) = map perform (directory_ops pp)"
    "map EnsureDir (map ((@) pp) project_dirs) = directory_ops pp"
    by (simp_all add: directory_ops_def comp_def)
  have run: "steps [perform (EnsureDir pp), console_log msg,
                      steps (map perform (directory_ops pp))] s = (Inr (), sA)"
    using s1(1) sA(1) unfolding m by (simp add: console_log_def s2_def)
  have A1: "\<forall>q. stat (files sA) (pp @ q) =
              (if q = [] \<or> q \<in> set project_dirs then Some D else None)"
  proof
    fix q
    have "(\<exists>p\<in>set (map ((@) pp) project_dirs). prefix (pp @ q) p) \<longleftrightarrow> (\<exists>d\<in>set project_dirs. prefix q d)"
      by simp
    then show "stat (files sA) (pp @ q) = (if q = [] \<or> q \<in> set project_dirs then Some D else None)"
      using stA st1 below [of q] prefix_project_dirs [of q] by (auto simp: s2_def)
  qed
  have A2: "\<forall>x. \<not> prefix pp x \<longrightarrow>
              stat (files sA) x = (if prefix x pp then Some D else stat (files s) x)"
  proof (intro allI impI)
    fix x assume x: "\<not> prefix pp x"
    have "(\<exists>p\<in>set (map ((@) pp) project_dirs). prefix x p) \<longleftrightarrow> prefix x pp"
      using prefix_outside [OF x] by (auto simp: project_dirs_def)
    then show "stat (files sA) x = (if prefix x pp then Some D else stat (files s) x)"
      using stA st1 by (simp add: s2_def)
  qed
  have "trace sA = trace s @ EnsureDir pp # directory_ops pp"
    using sA(2) s1(2) unfolding m by (simp add: s2_def)
  moreover have "console sA = console s @ [msg]"
    using sA(3) s1(3) by (simp add: s2_def)
  ultimately show ?thesis
    using run A1 A2 by blast
qed

lemma write_artifacts:
  assumes d: "stat (files s) pp = Some D" "stat (files s) (pp @ [''scripts'']) = Some D"
      "stat (files s) (pp @ [''test'']) = Some D" "stat (files s) (pp @ [''off-chain'']) = Some D"
      "stat (files s) (pp @ [''off-chain'', ''aggregator'']) = Some D"
      "stat (files s) (pp @ [''off-chain'', ''executor'']) = Some D"
    and f: "\<forall>q\<in>set (map fst (generated_files config t)). stat (files s) (pp @ q) \<noteq> Some D"
    and r: "Handlebars_compile (loadTemplate e (files s)) (context_of config) = Some t"
  shows "and_then (generatePackageJson e pp config)
           (and_then (steps (map perform
                  [WriteFile (pp @ [''hardhat.config.ts'']) getHardhatConfig,
                   WriteFile (pp @ [''scripts'', ''deploy.ts'']) getDeployScript,
                   WriteFile (pp @ [''test'', ''TaskMailbox.test.ts'']) getTestFile]))
              (generateOffChainComponents pp config)) s =
         (Inr (), s\<lparr>files := rev (map (\<lambda>(q, c). (pp @ q, F c)) (generated_files config t)) @ files s,
                      trace := trace s @ write_ops pp config t\<rparr>)"
  using d f r
  by (simp add: and_then_def generatePackageJson_def generateOffChainComponents_def
        path_join_literals perform_def writeFile_def butlast_append generated_files_def
        write_ops_def)

lemma stat_generated:
  "stat (rev (map (\<lambda>(q, c). (pp @ q, F c)) (generated_files config t)) @ fs) (pp @ q) =
     (case map_of (generated_files config t) q of
        Some c \<Rightarrow> Some (F c)
      | None \<Rightarrow> stat fs (pp @ q))"
  by (simp add: generated_files_def)

lemma stat_generated_outside:
  "\<not> prefix pp x \<Longrightarrow>
   stat (rev (map (\<lambda>(q, c). (pp @ q, F c)) (generated_files config t)) @ fs) x = stat fs x"
  by (auto simp: generated_files_def prefix_def)

lemma copy_file_into_project:
  assumes src: "stat (files s) src = Some (F c)"
    and below: "\<forall>r. r \<noteq> [] \<longrightarrow> stat (files s) (src @ r) = None"
    and par: "\<forall>x. prefix x (pp @ [d]) \<longrightarrow> stat (files s) x = Some D"
    and free: "\<forall>r. stat (files s) (pp @ [d, f] @ r) = None"
  shows "\<exists>s'. perform (Copy src (pp @ [d, f])) s = (Inr (), s') \<and>
           trace s' = trace s @ [Copy src (pp @ [d, f])] \<and> console s' = console s \<and>
           (\<forall>x. stat (files s') x = (if x = pp @ [d, f] then Some (F c) else stat (files s) x))"
proof -
  let ?dst = "pp @ [d, f]"
  have 1: "\<forall>de. stat (files s) ?dst = Some de \<longrightarrow> src \<noteq> ?dst \<and> same_kind (F c) de"
    using free [rule_format, of "[]"] by simp
  have 2: "\<not> (F c = D \<and> prefix src ?dst)" by simp
  have 3: "\<forall>q. prefix q (butlast ?dst) \<longrightarrow> stat (files s) q = Some D"
    using par by (simp add: butlast_append)
  have 4: "\<forall>q a b. stat (files s) (src @ q) = Some a \<longrightarrow> stat (files s) (?dst @ q) = Some b \<longrightarrow> same_kind a b"
    using free by simp
  from perform_Copy [OF src 1 2 3 4] obtain s' where
    s': "perform (Copy src ?dst) s = (Inr (), s')" "trace s' = trace s @ [Copy src ?dst]"
      "console s' = console s"
    and st: "\<forall>x. stat (files s') x =
              (if prefix ?dst x \<and> stat (files s) (src @ drop (length ?dst) x) \<noteq> None
               then stat (files s) (src @ drop (length ?dst) x) else stat (files s) x)"
    by blast
  have "\<forall>x. stat (files s') x = (if x = ?dst then Some (F c) else stat (files s) x)"
  proof
    fix x
    show "stat (files s') x = (if x = ?dst then Some (F c) else stat (files s) x)"
    proof (cases "prefix ?dst x")
      case True
      then obtain r where r: "x = ?dst @ r" by (auto simp: prefix_def)
      show ?thesis
      proof (cases "r = []")
        case True
        with r st src show ?thesis by simp
      next
        case False
        with below have "stat (files s) (src @ r) = None" by simp
        with r st False show ?thesis by simp
      qed
    next
      case False
      then have "x \<noteq> ?dst" by auto
      with st False show ?thesis by simp
    qed
  qed
  with s' show ?thesis by blast
qed

lemma copy_dir_into_project:
  assumes src: "stat (files s) src = Some D"
    and out: "\<not> prefix src (pp @ [d, f])"
    and dst: "stat (files s) (pp @ [d, f]) = Some D"
    and par: "\<forall>x. prefix x (pp @ [d]) \<longrightarrow> stat (files s) x = Some D"
    and free: "\<forall>r. r \<noteq> [] \<longrightarrow> stat (files s) (pp @ [d, f] @ r) = None"
  shows "\<exists>s'. perform (Copy src (pp @ [d, f])) s = (Inr (), s') \<and>
           trace s' = trace s @ [Copy src (pp @ [d, f])] \<and> console s' = console s \<and>
           (\<forall>x. stat (files s') x =
              (if prefix (pp @ [d, f]) x \<and> x \<noteq> pp @ [d, f]
               then stat (files s) (src @ drop (length pp + 2) x) else stat (files s) x))"
proof -
  let ?dst = "pp @ [d, f]"
  have ne: "src \<noteq> ?dst" using out by auto
  have 1: "\<forall>de. stat (files s) ?dst = Some de \<longrightarrow> src \<noteq> ?dst \<and> same_kind D de"
    using dst ne by simp
  have 2: "\<not> (D = D \<and> prefix src ?dst)" using out by simp
  have 3: "\<forall>q. prefix q (butlast ?dst) \<longrightarrow> stat (files s) q = Some D"
    using par by (simp add: butlast_append)
  have 4: "\<forall>q a b. stat (files s) (src @ q) = Some a \<longrightarrow> stat (files s) (?dst @ q) = Some b \<longrightarrow> same_kind a b"
  proof (intro allI impI)
    fix q a b
    assume a: "stat (files s) (src @ q) = Some a" and b: "stat (files s) (?dst @ q) = Some b"
    show "same_kind a b"
    proof (cases "q = []")
      case True
      with a b src dst show ?thesis by simp
    next
      case False
      with free b show ?thesis by simp
    qed
  qed
  from perform_Copy [OF src 1 2 3 4] obtain s' where
    s': "perform (Copy src ?dst) s = (Inr (), s')" "trace s' = trace s @ [Copy src ?dst]"
      "console s' = console s"
    and st: "\<forall>x. stat (files s') x =
              (if prefix ?dst x \<and> stat (files s) (src @ drop (length ?dst) x) \<noteq> None
               then stat (files s) (src @ drop (length ?dst) x) else stat (files s) x)"
    by blast
  have "\<forall>x. stat (files s') x =
              (if prefix ?dst x \<and> x \<noteq> ?dst
               then stat (files s) (src @ drop (length pp + 2) x) else stat (files s) x)"
  proof
    fix x
    show "stat (files s') x =
              (if prefix ?dst x \<and> x \<noteq> ?dst
               then stat (files s) (src @ drop (length pp + 2) x) else stat (files s) x)"
    proof (cases "prefix ?dst x")
      case True
      then obtain r where r: "x = ?dst @ r" by (auto simp: prefix_def)
      show ?thesis
      proof (cases "r = []")
        case True
        with r st src dst show ?thesis by simp
      next
        case False
        with free have "stat (files s) (?dst @ r) = None" by simp
        with r st False show ?thesis by auto
      qed
    next
      case False
      with st show ?thesis by simp
    qed
  qed
  with s' show ?thesis by blast
qed

lemma not_prefix_below_file:
  assumes anc: "\<forall>x. prefix x pp \<longrightarrow> stat fs x = Some D"
    and src: "stat fs src = Some (F c)" and out: "\<not> prefix pp src"
  shows "\<not> prefix pp (src @ r)"
proof
  assume "prefix pp (src @ r)"
  moreover have "prefix src (src @ r)" by simp
  ultimately have "prefix pp src \<or> prefix src pp" by (rule prefix_same_cases)
  with out have "prefix src pp" by simp
  with anc have "stat fs src = Some D" by simp
  with src show False by simp
qed

lemma copy_file_step:
  assumes R: "\<forall>q. stat (files s') (pp @ q) = R q"
    and O: "\<forall>x. \<not> prefix pp x \<longrightarrow> stat (files s') x = stat (files s) x"
    and anc: "\<forall>x. prefix x pp \<longrightarrow> stat (files s) x = Some D"
    and src: "stat (files s) src = Some (F c)"
    and below: "\<forall>r. r \<noteq> [] \<longrightarrow> stat (files s) (src @ r) = None"
    and out: "\<not> prefix pp src"
    and R0: "R [] = Some D" and Rd: "R [d] = Some D" and Rf: "\<forall>r. R ([d, f] @ r) = None"
  shows "\<exists>s''. perform (Copy src (pp @ [d, f])) s' = (Inr (), s'') \<and>
           trace s'' = trace s' @ [Copy src (pp @ [d, f])] \<and> console s'' = console s' \<and>
           (\<forall>q. stat (files s'') (pp @ q) = (if q = [d, f] then Some (F c) else R q)) \<and>
           (\<forall>x. \<not> prefix pp x \<longrightarrow> stat (files s'') x = stat (files s) x)"
proof -
  have o: "\<not> prefix pp (src @ r)" for r
    by (rule not_prefix_below_file [OF anc src out])
  have 1: "stat (files s') src = Some (F c)"
    using O out src by simp
  have 2: "\<forall>r. r \<noteq> [] \<longrightarrow> stat (files s') (src @ r) = None"
    using O o below by simp
  have 3: "\<forall>x. prefix x (pp @ [d]) \<longrightarrow> stat (files s') x = Some D"
  proof (intro allI impI)
    fix x assume "prefix x (pp @ [d])"
    then consider "x = pp @ [d]" | "x = pp" | "prefix x pp" "x \<noteq> pp"
      by (auto simp: prefix_snoc)
    then show "stat (files s') x = Some D"
    proof cases
      case 1
      with R Rd show ?thesis by simp
    next
      case 2
      with R [rule_format, of "[]"] R0 show ?thesis by simp
    next
      case 3
      then have "\<not> prefix pp x" by (auto simp: prefix_order.eq_iff)
      with O anc 3 show ?thesis by simp
    qed
  qed
  have 4: "\<forall>r. stat (files s') (pp @ [d, f] @ r) = None"
    using R Rf by simp
  from copy_file_into_project [OF 1 2 3 4] obtain s'' where
    s'': "perform (Copy src (pp @ [d, f])) s' = (Inr (), s'')"
      "trace s'' = trace s' @ [Copy src (pp @ [d, f])]" "console s'' = console s'"
    and st: "\<forall>x. stat (files s'') x = (if x = pp @ [d, f] then Some (F c) else stat (files s') x)"
    by blast
  have "\<forall>q. stat (files s'') (pp @ q) = (if q = [d, f] then Some (F c) else R q)"
    using st R by simp
  moreover have "\<forall>x. \<not> prefix pp x \<longrightarrow> stat (files s'') x = stat (files s) x"
  proof (intro allI impI)
    fix x assume x: "\<not> prefix pp x"
    then have "x \<noteq> pp @ [d, f]" by auto
    with st O x show "stat (files s'') x = stat (files s) x" by simp
  qed
  ultimately show ?thesis using s'' by blast
qed

lemma copy_contracts:
  assumes A1: "\<forall>q. stat (files s) (pp @ q) =
                 (if q = [] \<or> q \<in> set project_dirs then Some D else None)"
    and anc: "\<forall>x. prefix x pp \<longrightarrow> stat (files s) x = Some D"
    and ifs: "stat (files s) (cp @ [''interfaces'']) = Some D"
    and io: "\<not> prefix pp (cp @ [''interfaces''])" "\<not> prefix (cp @ [''interfaces'']) pp"
    and f1: "stat (files s) (cp @ [''TaskMailbox.sol'']) = Some (F c1)"
      "\<forall>r. r \<noteq> [] \<longrightarrow> stat (files s) ((cp @ [''TaskMailbox.sol'']) @ r) = None"
      "\<not> prefix pp (cp @ [''TaskMailbox.sol''])"
    and f2: "stat (files s) (cp @ [''TaskAVSRegistrar.sol'']) = Some (F c2)"
      "\<forall>r. r \<noteq> [] \<longrightarrow> stat (files s) ((cp @ [''TaskAVSRegistrar.sol'']) @ r) = None"
      "\<not> prefix pp (cp @ [''TaskAVSRegistrar.sol''])"
    and f3: "stat (files s) (cp @ [''SlashingConditions.sol'']) = Some (F c3)"
      "\<forall>r. r \<noteq> [] \<longrightarrow> stat (files s) ((cp @ [''SlashingConditions.sol'']) @ r) = None"
      "\<not> prefix pp (cp @ [''SlashingConditions.sol''])"
  shows "\<exists>s'. steps (map perform (copy_ops cp pp)) s = (Inr (), s') \<and>
           trace s' = trace s @ copy_ops cp pp \<and> console s' = console s \<and>
           (\<forall>q. stat (files s') (pp @ q) =
              (if q = [] \<or> q \<in> set project_dirs then Some D
               else if q \<in> set contract_files \<or> prefix [''contracts'', ''interfaces''] q
                 then stat (files s) (cp @ tl q) else None)) \<and>
           (\<forall>x. \<not> prefix pp x \<longrightarrow> stat (files s') x = stat (files s) x)"
proof -
  let ?ip = "cp @ [''interfaces'']"
  let ?dst = "pp @ [''contracts'', ''interfaces'']"
  define R0 where "R0 q = (if q = [] \<or> q \<in> set project_dirs then Some D else None)" for q :: path
  have i1: "\<not> prefix ?ip ?dst"
  proof
    assume "prefix ?ip ?dst"
    moreover have "prefix pp ?dst" by simp
    ultimately have "prefix ?ip pp \<or> prefix pp ?ip" by (rule prefix_same_cases)
    with io show False by simp
  qed
  have i2: "stat (files s) ?dst = Some D"
    using A1 [rule_format, of "[''contracts'', ''interfaces'']"] by (simp add: project_dirs_def)
  have i3: "\<forall>x. prefix x (pp @ [''contracts'']) \<longrightarrow> stat (files s) x = Some D"
    using anc A1 [rule_format, of "[''contracts'']"] by (auto simp: prefix_snoc project_dirs_def)
  have i4: "\<forall>r. r \<noteq> [] \<longrightarrow> stat (files s) (pp @ [''contracts'', ''interfaces''] @ r) = None"
  proof (intro allI impI)
    fix r :: path assume "r \<noteq> []"
    then show "stat (files s) (pp @ [''contracts'', ''interfaces''] @ r) = None"
      using A1 [rule_format, of "[''contracts'', ''interfaces''] @ r"] by (simp add: project_dirs_def)
  qed
  from copy_dir_into_project [OF ifs i1 i2 i3 i4] obtain s1 where
    s1: "perform (Copy ?ip ?dst) s = (Inr (), s1)" "trace s1 = trace s @ [Copy ?ip ?dst]"
      "console s1 = console s"
    and st1: "\<forall>x. stat (files s1) x =
              (if prefix ?dst x \<and> x \<noteq> ?dst
               then stat (files s) (?ip @ drop (length pp + 2) x) else stat (files s) x)"
    by blast
  define R1 where "R1 q = (if prefix [''contracts'', ''interfaces''] q \<and> q \<noteq> [''contracts'', ''interfaces'']
                          then stat (files s) (cp @ tl q) else R0 q)" for q
  have tl: "?ip @ drop 2 q = cp @ tl q" if "prefix [''contracts'', ''interfaces''] q" for q
    using that by (auto simp: prefix_def)
  have A0: "stat (files s) pp = Some D"
    using A1 [rule_format, of "[]"] by simp
  have r1: "\<forall>q. stat (files s1) (pp @ q) = R1 q"
  proof
    fix q
    show "stat (files s1) (pp @ q) = R1 q"
    proof (cases "prefix [''contracts'', ''interfaces''] q \<and> q \<noteq> [''contracts'', ''interfaces'']")
      case True
      then have "stat (files s1) (pp @ q) = stat (files s) (?ip @ drop 2 q)"
        using st1 [rule_format, of "pp @ q"] by simp
      with True tl [of q] show ?thesis by (simp add: R1_def)
    next
      case False
      then have "stat (files s1) (pp @ q) = stat (files s) (pp @ q)"
        using st1 [rule_format, of "pp @ q"] by auto
      with False A1 [rule_format, of q] show ?thesis by (auto simp: R1_def R0_def)
    qed
  qed
  have o1: "\<forall>x. \<not> prefix pp x \<longrightarrow> stat (files s1) x = stat (files s) x"
  proof (intro allI impI)
    fix x assume "\<not> prefix pp x"
    then have "\<not> prefix ?dst x" by (auto simp: prefix_def)
    with st1 show "stat (files s1) x = stat (files s) x" by simp
  qed
  have R1_0: "R1 [] = Some D" "R1 [''contracts''] = Some D"
    by (simp_all add: R1_def R0_def project_dirs_def)
  have R1_f: "\<forall>r. R1 ([''contracts'', f] @ r) = None" if "f \<noteq> ''interfaces''" for f
    using that by (simp add: R1_def R0_def project_dirs_def)
  from copy_file_step [OF r1 o1 anc f1(1) f1(2) f1(3) R1_0 R1_f, of "''TaskMailbox.sol''"] obtain s2 where
    s2: "perform (Copy (cp @ [''TaskMailbox.sol'']) (pp @ [''contracts'', ''TaskMailbox.sol''])) s1 = (Inr (), s2)"
      "trace s2 = trace s1 @ [Copy (cp @ [''TaskMailbox.sol'']) (pp @ [''contracts'', ''TaskMailbox.sol''])]"
      "console s2 = console s1"
    and r2: "\<forall>q. stat (files s2) (pp @ q) = (if q = [''contracts'', ''TaskMailbox.sol''] then Some (F c1) else R1 q)"
    and o2: "\<forall>x. \<not> prefix pp x \<longrightarrow> stat (files s2) x = stat (files s) x"
    by auto
  define R2 where "R2 q = (if q = [''contracts'', ''TaskMailbox.sol''] then Some (F c1) else R1 q)" for q
  have r2': "\<forall>q. stat (files s2) (pp @ q) = R2 q" using r2 by (simp add: R2_def)
  have R2_0: "R2 [] = Some D" "R2 [''contracts''] = Some D"
    using R1_0 by (simp_all add: R2_def)
  have R2_f: "\<forall>r. R2 ([''contracts'', ''TaskAVSRegistrar.sol''] @ r) = None"
    using R1_f [of "''TaskAVSRegistrar.sol''"] by (simp add: R2_def)
  from copy_file_step [OF r2' o2 anc f2(1) f2(2) f2(3) R2_0 R2_f] obtain s3 where
    s3: "perform (Copy (cp @ [''TaskAVSRegistrar.sol'']) (pp @ [''contracts'', ''TaskAVSRegistrar.sol''])) s2 = (Inr (), s3)"
      "trace s3 = trace s2 @ [Copy (cp @ [''TaskAVSRegistrar.sol'']) (pp @ [''contracts'', ''TaskAVSRegistrar.sol''])]"
      "console s3 = console s2"
    and r3: "\<forall>q. stat (files s3) (pp @ q) = (if q = [''contracts'', ''TaskAVSRegistrar.sol''] then Some (F c2) else R2 q)"
    and o3: "\<forall>x. \<not> prefix pp x \<longrightarrow> stat (files s3) x = stat (files s) x"
    by auto
  define R3 where "R3 q = (if q = [''contracts'', ''TaskAVSRegistrar.sol''] then Some (F c2) else R2 q)" for q
  have r3': "\<forall>q. stat (files s3) (pp @ q) = R3 q" using r3 by (simp add: R3_def)
  have R3_0: "R3 [] = Some D" "R3 [''contracts''] = Some D"
    using R2_0 by (simp_all add: R3_def)
  have R3_f: "\<forall>r. R3 ([''contracts'', ''SlashingConditions.sol''] @ r) = None"
    using R1_f [of "''SlashingConditions.sol''"] by (simp add: R3_def R2_def)
  from copy_file_step [OF r3' o3 anc f3(1) f3(2) f3(3) R3_0 R3_f] obtain s4 where
    s4: "perform (Copy (cp @ [''SlashingConditions.sol'']) (pp @ [''contracts'', ''SlashingConditions.sol''])) s3 = (Inr (), s4)"
      "trace s4 = trace s3 @ [Copy (cp @ [''SlashingConditions.sol'']) (pp @ [''contracts'', ''SlashingConditions.sol''])]"
      "console s4 = console s3"
    and r4: "\<forall>q. stat (files s4) (pp @ q) = (if q = [''contracts'', ''SlashingConditions.sol''] then Some (F c3) else R3 q)"
    and o4: "\<forall>x. \<not> prefix pp x \<longrightarrow> stat (files s4) x = stat (files s) x"
    by auto
  have run: "steps (map perform (copy_ops cp pp)) s = (Inr (), s4)"
    using s1(1) s2(1) s3(1) s4(1) by (simp add: copy_ops_def)
  have tr: "trace s4 = trace s @ copy_ops cp pp"
    using s1(2) s2(2) s3(2) s4(2) by (simp add: copy_ops_def)
  have co: "console s4 = console s"
    using s1(3) s2(3) s3(3) s4(3) by simp
  have fin: "\<forall>q. stat (files s4) (pp @ q) =
              (if q = [] \<or> q \<in> set project_dirs then Some D
               else if q \<in> set contract_files \<or> prefix [''contracts'', ''interfaces''] q
                 then stat (files s) (cp @ tl q) else None)"
  proof
    fix q
    show "stat (files s4) (pp @ q) =
              (if q = [] \<or> q \<in> set project_dirs then Some D
               else if q \<in> set contract_files \<or> prefix [''contracts'', ''interfaces''] q
                 then stat (files s) (cp @ tl q) else None)"
      using r4 [rule_format, of q] f1(1) f2(1) f3(1)
      by (auto simp: R3_def R2_def R1_def R0_def contract_files_def project_dirs_def)
  qed
  from run tr co fin o4 show ?thesis by blast
qed

lemma and_then_assoc: "and_then (and_then a b) c = and_then a (and_then b c)"
  by (rule ext) (auto simp: and_then_def split: prod.splits sum.splits)

lemma and_then_Inr: "m s = (Inr (), s') \<Longrightarrow> and_then m n s = n s'"
  by (simp add: and_then_def)

lemma and_then_steps_Nil: "and_then m (steps []) = m"
  by (rule ext) (auto simp: and_then_def split: prod.splits sum.splits)

lemma scaffoldProject_seq:
  assumes "\<not> pathExists (target_path e name) (files s)" "prompt e name tmpl = Inr config"
  shows "scaffoldProject e name tmpl s =
           and_then (steps [perform (EnsureDir (target_path e name)),
                            console_log (''Created directory: '' @ projectName config),
                            steps (map perform (directory_ops (target_path e name)))])
             (and_then (copyContractTemplates e (target_path e name))
                (and_then
                   (and_then (generatePackageJson e (target_path e name) config)
                      (and_then (steps (map perform
                         [WriteFile (target_path e name @ [''hardhat.config.ts'']) getHardhatConfig,
                          WriteFile (target_path e name @ [''scripts'', ''deploy.ts'']) getDeployScript,
                          WriteFile (target_path e name @ [''test'', ''TaskMailbox.test.ts'']) getTestFile]))
                         (generateOffChainComponents (target_path e name) config)))
                   (console_log ''Project scaffolded successfully!''))) s"
proof -
  let ?pp = "target_path e name"
  have 1: "scaffoldProject e name tmpl s =
          steps [perform (EnsureDir ?pp), console_log (''Created directory: '' @ projectName config),
                 createProjectStructure e ?pp config,
                 console_log ''Project scaffolded successfully!''] s"
    using assms by (simp add: scaffoldProject_def target_path_def Let_def del: steps.simps)
  have 2: "steps [a, b, c, d] = and_then a (and_then b (and_then c d))" for a b c d :: prog
    by (simp only: steps_Cons_and_then and_then_steps_Nil)
  have 3: "steps [a, b, c] = and_then a (and_then b c)" for a b c :: prog
    by (simp only: steps_Cons_and_then and_then_steps_Nil)
  show ?thesis
    unfolding 1 by (simp only: 2 3 createProjectStructure_seq and_then_assoc)
qed

lemma is_file_Some: "is_file v \<Longrightarrow> \<exists>c. v = Some (F c)"
  by (cases v rule: is_file.cases) auto

lemma loadTemplate_same:
  assumes "is_file (stat fs' p) \<longleftrightarrow> is_file (stat fs p)"
    and "is_file (stat fs p) \<longrightarrow> stat fs' p = stat fs p"
    and "p = bundled_template e"
  shows "loadTemplate e fs' = loadTemplate e fs"
proof (cases "is_file (stat fs p)")
  case True
  then obtain c where "stat fs p = Some (F c)" using is_file_Some by blast
  with assms show ?thesis
    by (simp add: loadTemplate_def readFile_def bundled_template_def)
next
  case False
  with assms(1) have f: "\<not> is_file (stat fs' p)" by simp
  from False have "readFile p fs = Inl (ENOENT p) \<or> readFile p fs = Inl (EISDIR p)"
    using not_file_cases [of "stat fs p"] by (auto simp: readFile_def)
  moreover from f have "readFile p fs' = Inl (ENOENT p) \<or> readFile p fs' = Inl (EISDIR p)"
    using not_file_cases [of "stat fs' p"] by (auto simp: readFile_def)
  ultimately show ?thesis
    using assms(3) by (auto simp: loadTemplate_def bundled_template_def)
qed

lemma scaffold_run:
  fixes e name
  defines "pp \<equiv> target_path e name" and "cp \<equiv> bundled_contracts e"
  assumes cc: "can_create (files s) pp" and tree: "tree_fs (files s)"
    and pr: "prompt e name tmpl = Inr config"
    and tp: "\<not> prefix pp (bundled_template e)"
    and rd: "Handlebars_compile (loadTemplate e (files s)) (context_of config) = Some t"
    and present: "copied \<longrightarrow> contracts_bundled e (files s) \<and> \<not> prefix (cp @ [''interfaces'']) pp"
    and absent: "\<not> copied \<longrightarrow> contracts_missing e (files s) pp"
  shows "\<exists>s'. scaffoldProject e name tmpl s = (Inr (), s') \<and>
           trace s' = trace s @ run_ops pp cp copied config t \<and>
           console s' = console s @ [''Created directory: '' @ projectName config,
                                     ''Project scaffolded successfully!''] \<and>
           (\<forall>q. stat (files s') (pp @ q) = project_tree (stat (files s)) cp copied config t q) \<and>
           (\<forall>x. \<not> prefix pp x \<longrightarrow>
              stat (files s') x = (if prefix x pp then Some D else stat (files s) x))"
proof -
  let ?m = "stat (files s)"
  from cc have H1: "?m pp = None" and H3: "\<forall>q. prefix q pp \<longrightarrow> \<not> is_file (?m q)"
    by (simp_all add: can_create_def list_all_iff)
  have below: "?m (pp @ q) = None" for q
    by (rule tree_absent_below [OF tree H1])
  have outside: "\<not> prefix pp x" if "?m x \<noteq> None" for x
  proof
    assume "prefix pp x"
    then obtain q where "x = pp @ q" by (auto simp: prefix_def)
    with below [of q] that show False by simp
  qed
  from H1 have ne: "\<not> pathExists pp (files s)" by (simp add: pathExists_def)
  note run0 = scaffoldProject_seq [OF ne [unfolded pp_def] pr, folded pp_def]
  from build_directories [OF H1 tree H3, of "''Created directory: '' @ projectName config"]
  obtain sA where
    sA: "steps [perform (EnsureDir pp), console_log (''Created directory: '' @ projectName config),
                steps (map perform (directory_ops pp))] s = (Inr (), sA)"
      "trace sA = trace s @ EnsureDir pp # directory_ops pp"
      "console sA = console s @ [''Created directory: '' @ projectName config]"
    and A1: "\<forall>q. stat (files sA) (pp @ q) = (if q = [] \<or> q \<in> set project_dirs then Some D else None)"
    and A2: "\<forall>x. \<not> prefix pp x \<longrightarrow> stat (files sA) x = (if prefix x pp then Some D else ?m x)"
    by blast
  have A0: "stat (files sA) pp = Some D"
    using A1 [rule_format, of "[]"] by simp
  have anc: "\<forall>x. prefix x pp \<longrightarrow> stat (files sA) x = Some D"
  proof (intro allI impI)
    fix x assume x: "prefix x pp"
    show "stat (files sA) x = Some D"
    proof (cases "x = pp")
      case True
      with A0 show ?thesis by simp
    next
      case False
      with x have "\<not> prefix pp x" by (auto simp: prefix_order.eq_iff)
      with A2 x show ?thesis by simp
    qed
  qed
  txt \<open>what is outside the project and not above it is as it was\<close>
  have keep: "stat (files sA) x = ?m x" if "\<not> prefix pp x" "\<not> prefix x pp" for x
    using A2 that by simp
  have file_out: "\<not> prefix pp (x @ r) \<and> \<not> prefix (x @ r) pp" if "is_file (?m x)" for x r
  proof -
    from is_file_Some [OF that] have ex: "?m x \<noteq> None" by auto
    have 1: "\<not> prefix x pp" using H3 that by auto
    have 2: "\<not> prefix pp x" by (rule outside [OF ex])
    have "\<not> prefix pp (x @ r)"
    proof
      assume "prefix pp (x @ r)"
      moreover have "prefix x (x @ r)" by simp
      ultimately have "prefix pp x \<or> prefix x pp" by (rule prefix_same_cases)
      with 1 2 show False by simp
    qed
    moreover have "\<not> prefix (x @ r) pp"
      using 1 by (meson append_prefixD)
    ultimately show ?thesis by simp
  qed
  txt \<open>the copies\<close>
  have "\<exists>sB. copyContractTemplates e pp sA = (Inr (), sB) \<and>
          trace sB = trace sA @ (if copied then copy_ops cp pp else []) \<and> console sB = console sA \<and>
          (\<forall>q. stat (files sB) (pp @ q) =
              (if q = [] \<or> q \<in> set project_dirs then Some D
               else if copied \<and> (q \<in> set contract_files \<or> prefix [''contracts'', ''interfaces''] q)
                 then ?m (cp @ tl q) else None)) \<and>
          (\<forall>x. \<not> prefix pp x \<longrightarrow> stat (files sB) x = stat (files sA) x)"
  proof (cases copied)
    case False
    with absent have mis: "?m cp = None" "\<not> prefix cp pp" "cp \<notin> set (map ((@) pp) project_dirs)"
      by (simp_all add: contracts_missing_def cp_def)
    have "stat (files sA) cp = None"
    proof (cases "prefix pp cp")
      case True
      then obtain q where q: "cp = pp @ q" by (auto simp: prefix_def)
      with mis(2,3) have "q \<noteq> []" "q \<notin> set project_dirs" by auto
      with A1 q show ?thesis by simp
    next
      case False
      with A2 mis show ?thesis by simp
    qed
    then have "copyContractTemplates e pp sA = (Inr (), sA)"
      by (simp add: copyContractTemplates_def pathExists_def cp_def bundled_contracts_def Let_def)
    with False A1 show ?thesis by simp
  next
    case True
    let ?ip = "cp @ [''interfaces'']"
    from True present have ifs0: "?m ?ip = Some D" and io2: "\<not> prefix ?ip pp"
      and fl: "is_file (?m (cp @ [''TaskMailbox.sol'']))"
        "is_file (?m (cp @ [''TaskAVSRegistrar.sol'']))"
        "is_file (?m (cp @ [''SlashingConditions.sol'']))"
      by (simp_all add: contracts_bundled_def cp_def)
    from is_file_Some [OF fl(1)] obtain c1 where c1: "?m (cp @ [''TaskMailbox.sol'']) = Some (F c1)" ..
    from is_file_Some [OF fl(2)] obtain c2 where c2: "?m (cp @ [''TaskAVSRegistrar.sol'']) = Some (F c2)" ..
    from is_file_Some [OF fl(3)] obtain c3 where c3: "?m (cp @ [''SlashingConditions.sol'']) = Some (F c3)" ..
    have io1: "\<not> prefix pp ?ip" using outside [of ?ip] ifs0 by simp
    have cpD: "?m cp = Some D"
      using tree_fs_parent [OF tree, of ?ip] ifs0 by (simp add: butlast_append)
    have cpo: "\<not> prefix pp cp" using outside [of cp] cpD by simp
    have "stat (files sA) cp \<noteq> None"
      using A2 cpo cpD by simp
    then have run: "copyContractTemplates e pp sA = steps (map perform (copy_ops cp pp)) sA"
      by (simp add: copyContractTemplates_def pathExists_def cp_def bundled_contracts_def Let_def
            copy_ops_def path_join_literals)
    have ifs: "stat (files sA) ?ip = Some D"
      using keep [OF io1 io2] ifs0 by simp
    have ff: "stat (files sA) x = Some (F c) \<and>
              (\<forall>r. r \<noteq> [] \<longrightarrow> stat (files sA) (x @ r) = None) \<and> \<not> prefix pp x"
      if x: "?m x = Some (F c)" for x c
    proof -
      from x have fx: "is_file (?m x)" by simp
      have o: "\<not> prefix pp (x @ r)" "\<not> prefix (x @ r) pp" for r
        using file_out [OF fx, of r] by simp_all
      have "stat (files sA) x = Some (F c)"
        using keep [of x] o [of "[]"] x by simp
      moreover have "\<forall>r. r \<noteq> [] \<longrightarrow> stat (files sA) (x @ r) = None"
      proof (intro allI impI)
        fix r :: path assume "r \<noteq> []"
        then have "?m (x @ r) = None" by (rule tree_file_below [OF tree x])
        then show "stat (files sA) (x @ r) = None"
          using keep [OF o [of r]] by simp
      qed
      moreover have "\<not> prefix pp x" using o [of "[]"] by simp
      ultimately show ?thesis by simp
    qed
    have f1: "stat (files sA) (cp @ [''TaskMailbox.sol'']) = Some (F c1)"
      "\<forall>r. r \<noteq> [] \<longrightarrow> stat (files sA) ((cp @ [''TaskMailbox.sol'']) @ r) = None"
      "\<not> prefix pp (cp @ [''TaskMailbox.sol''])"
      using ff [OF c1] by simp_all
    have f2: "stat (files sA) (cp @ [''TaskAVSRegistrar.sol'']) = Some (F c2)"
      "\<forall>r. r \<noteq> [] \<longrightarrow> stat (files sA) ((cp @ [''TaskAVSRegistrar.sol'']) @ r) = None"
      "\<not> prefix pp (cp @ [''TaskAVSRegistrar.sol''])"
      using ff [OF c2] by simp_all
    have f3: "stat (files sA) (cp @ [''SlashingConditions.sol'']) = Some (F c3)"
      "\<forall>r. r \<noteq> [] \<longrightarrow> stat (files sA) ((cp @ [''SlashingConditions.sol'']) @ r) = None"
      "\<not> prefix pp (cp @ [''SlashingConditions.sol''])"
      using ff [OF c3] by simp_all
    from copy_contracts [OF A1 anc ifs io1 io2 f1 f2 f3] obtain sB where
      sB: "steps (map perform (copy_ops cp pp)) sA = (Inr (), sB)"
        "trace sB = trace sA @ copy_ops cp pp" "console sB = console sA"
      and B1: "\<forall>q. stat (files sB) (pp @ q) =
              (if q = [] \<or> q \<in> set project_dirs then Some D
               else if q \<in> set contract_files \<or> prefix [''contracts'', ''interfaces''] q
                 then stat (files sA) (cp @ tl q) else None)"
      and B2: "\<forall>x. \<not> prefix pp x \<longrightarrow> stat (files sB) x = stat (files sA) x"
      by blast
    have src: "stat (files sA) (cp @ tl q) = ?m (cp @ tl q)"
      if "q \<in> set contract_files \<or> prefix [''contracts'', ''interfaces''] q" for q
    proof (cases "q \<in> set contract_files")
      case True
      then have "q = [''contracts'', ''TaskMailbox.sol''] \<or> q = [''contracts'', ''TaskAVSRegistrar.sol'']
          \<or> q = [''contracts'', ''SlashingConditions.sol'']"
        by (simp add: contract_files_def)
      then show ?thesis using f1(1) f2(1) f3(1) c1 c2 c3 by (elim disjE) simp_all
    next
      case False
      with that have "prefix [''contracts'', ''interfaces''] q" by simp
      then obtain r where r: "q = [''contracts'', ''interfaces''] @ r"
        unfolding prefix_def by (rule exE)
      have "\<not> prefix pp (?ip @ r)"
      proof
        assume "prefix pp (?ip @ r)"
        moreover have "prefix ?ip (?ip @ r)" by simp
        ultimately have "prefix pp ?ip \<or> prefix ?ip pp" by (rule prefix_same_cases)
        with io1 io2 show False by simp
      qed
      moreover have "\<not> prefix (?ip @ r) pp"
        using io2 by (meson append_prefixD)
      ultimately have "stat (files sA) (?ip @ r) = ?m (?ip @ r)" by (rule keep)
      with r show ?thesis by simp
    qed
    have "\<forall>q. stat (files sB) (pp @ q) =
              (if q = [] \<or> q \<in> set project_dirs then Some D
               else if copied \<and> (q \<in> set contract_files \<or> prefix [''contracts'', ''interfaces''] q)
                 then ?m (cp @ tl q) else None)"
      using B1 src True by simp
    with run sB B2 True show ?thesis by simp
  qed
  then obtain sB where
    sB: "copyContractTemplates e pp sA = (Inr (), sB)"
      "trace sB = trace sA @ (if copied then copy_ops cp pp else [])" "console sB = console sA"
    and B1: "\<forall>q. stat (files sB) (pp @ q) =
              (if q = [] \<or> q \<in> set project_dirs then Some D
               else if copied \<and> (q \<in> set contract_files \<or> prefix [''contracts'', ''interfaces''] q)
                 then ?m (cp @ tl q) else None)"
    and B2: "\<forall>x. \<not> prefix pp x \<longrightarrow> stat (files sB) x = stat (files sA) x"
    by blast
  txt \<open>the template that is read is the one of the start\<close>
  let ?tp = "bundled_template e"
  have tpA: "stat (files sB) ?tp = (if prefix ?tp pp then Some D else ?m ?tp)"
    using B2 A2 tp by simp
  have "loadTemplate e (files sB) = loadTemplate e (files s)"
  proof (rule loadTemplate_same [where p = ?tp])
    show "is_file (stat (files sB) ?tp) = is_file (?m ?tp)"
      using tpA H3 by auto
    show "is_file (?m ?tp) \<longrightarrow> stat (files sB) ?tp = ?m ?tp"
      using tpA H3 by auto
  qed simp
  with rd have rdB: "Handlebars_compile (loadTemplate e (files sB)) (context_of config) = Some t"
    by simp
  txt \<open>the writes\<close>
  have B0: "stat (files sB) pp = Some D"
    using B1 [rule_format, of "[]"] by simp
  have d: "stat (files sB) (pp @ [''scripts'']) = Some D"
      "stat (files sB) (pp @ [''test'']) = Some D" "stat (files sB) (pp @ [''off-chain'']) = Some D"
      "stat (files sB) (pp @ [''off-chain'', ''aggregator'']) = Some D"
      "stat (files sB) (pp @ [''off-chain'', ''executor'']) = Some D"
    using B1 by (simp_all add: project_dirs_def)
  have f: "\<forall>q\<in>set (map fst (generated_files config t)). stat (files sB) (pp @ q) \<noteq> Some D"
    using B1 by (simp add: generated_files_def project_dirs_def contract_files_def)
  note w = write_artifacts [OF B0 d f rdB]
  define sC where "sC = sB\<lparr>files := rev (map (\<lambda>(q, c). (pp @ q, F c)) (generated_files config t)) @ files sB,
                      trace := trace sB @ write_ops pp config t\<rparr>"
  define s' where "s' = sC\<lparr>console := console sC @ [''Project scaffolded successfully!'']\<rparr>"
  have r1: "and_then (steps [perform (EnsureDir pp),
                console_log (''Created directory: '' @ projectName config),
                steps (map perform (directory_ops pp))]) n s = n sA" for n
    using sA(1) by (rule and_then_Inr)
  have r2: "and_then (copyContractTemplates e pp) n sA = n sB" for n
    using sB(1) by (rule and_then_Inr)
  have r3: "and_then (and_then (generatePackageJson e pp config)
                      (and_then (steps (map perform
                         [WriteFile (pp @ [''hardhat.config.ts'']) getHardhatConfig,
                          WriteFile (pp @ [''scripts'', ''deploy.ts'']) getDeployScript,
                          WriteFile (pp @ [''test'', ''TaskMailbox.test.ts'']) getTestFile]))
                         (generateOffChainComponents pp config))) n sB = n sC" for n
    using w unfolding sC_def by (rule and_then_Inr)
  have "scaffoldProject e name tmpl s = (Inr (), s')"
    unfolding run0 r1 r2 r3 by (simp add: console_log_def s'_def)
  moreover have "trace s' = trace s @ run_ops pp cp copied config t"
    using sA(2) sB(2) by (simp add: s'_def sC_def run_ops_def)
  moreover have "console s' = console s @ [''Created directory: '' @ projectName config,
                                     ''Project scaffolded successfully!'']"
    using sA(3) sB(3) by (simp add: s'_def sC_def)
  moreover have "\<forall>q. stat (files s') (pp @ q) = project_tree ?m cp copied config t q"
  proof
    fix q
    have g: "stat (files s') (pp @ q) =
        (case map_of (generated_files config t) q of
           Some c \<Rightarrow> Some (F c) | None \<Rightarrow> stat (files sB) (pp @ q))"
      by (simp add: s'_def sC_def stat_generated del: map_of_append)
    show "stat (files s') (pp @ q) = project_tree ?m cp copied config t q"
      by (simp only: g project_tree_def B1 [rule_format])
  qed
  moreover have "\<forall>x. \<not> prefix pp x \<longrightarrow>
              stat (files s') x = (if prefix x pp then Some D else ?m x)"
    using B2 A2 by (simp add: s'_def sC_def stat_generated_outside del: map_of_append)
  ultimately show ?thesis by blast
qed

section \<open>What a successful run has done\<close>

lemma and_then_Inr_iff:
  "and_then m n s = (Inr (), s') \<longleftrightarrow> (\<exists>s1. m s = (Inr (), s1) \<and> n s1 = (Inr (), s'))"
  by (cases "m s" rule: prod.exhaust) (auto simp: and_then_def split: sum.splits)

lemma perform_WriteFile_iff:
  "perform (WriteFile p c) s = (Inr (), s') \<longleftrightarrow>
     p \<noteq> [] \<and> stat (files s) (butlast p) = Some D \<and> stat (files s) p \<noteq> Some D \<and>
     s' = s\<lparr>files := (p, F c) # files s, trace := trace s @ [WriteFile p c]\<rparr>"
proof (cases "writeFile p c (files s)")
  case (Inl err)
  then have "\<not> (p \<noteq> [] \<and> stat (files s) (butlast p) = Some D \<and> stat (files s) p \<noteq> Some D)"
    using writeFile_Inr [of p c "files s" "(p, F c) # files s"] by auto
  with Inl show ?thesis by (auto simp: perform_def)
next
  case (Inr fs')
  then show ?thesis
    using writeFile_Inr [of p c "files s" fs'] by (auto simp: perform_def)
qed

lemma write_artifacts_inv:
  assumes "and_then (generatePackageJson e pp config)
           (and_then (steps (map perform
                  [WriteFile (pp @ [''hardhat.config.ts'']) getHardhatConfig,
                   WriteFile (pp @ [''scripts'', ''deploy.ts'']) getDeployScript,
                   WriteFile (pp @ [''test'', ''TaskMailbox.test.ts'']) getTestFile]))
              (generateOffChainComponents pp config)) s = (Inr (), s')"
  shows "\<exists>t. Handlebars_compile (loadTemplate e (files s)) (context_of config) = Some t \<and>
           stat (files s) pp = Some D \<and>
           s' = s\<lparr>files := rev (map (\<lambda>(q, c). (pp @ q, F c)) (generated_files config t)) @ files s,
                      trace := trace s @ write_ops pp config t\<rparr>"
proof -
  from assms obtain s1 where
    g: "generatePackageJson e pp config s = (Inr (), s1)"
    and rest: "and_then (steps (map perform
                  [WriteFile (pp @ [''hardhat.config.ts'']) getHardhatConfig,
                   WriteFile (pp @ [''scripts'', ''deploy.ts'']) getDeployScript,
                   WriteFile (pp @ [''test'', ''TaskMailbox.test.ts'']) getTestFile]))
              (generateOffChainComponents pp config) s1 = (Inr (), s')"
    unfolding and_then_Inr_iff by blast
  from g obtain t where t: "Handlebars_compile (loadTemplate e (files s)) (context_of config) = Some t"
    and w: "perform (WriteFile (pp @ [''package.json'']) t) s = (Inr (), s1)"
    by (cases "Handlebars_compile (loadTemplate e (files s)) (context_of config)")
       (auto simp: generatePackageJson_def path_join_literals)
  from w have d: "stat (files s) pp = Some D"
    and s1: "s1 = s\<lparr>files := (pp @ [''package.json''], F t) # files s,
                      trace := trace s @ [WriteFile (pp @ [''package.json'']) t]\<rparr>"
    unfolding perform_WriteFile_iff by (simp_all add: butlast_append)
  have steps3: "steps [a, b, c] = and_then a (and_then b c)" for a b c :: prog
    by (simp only: steps_Cons_and_then and_then_steps_Nil)
  from rest have "s' = s1\<lparr>files := rev (map (\<lambda>(q, c). (pp @ q, F c)) (tl (generated_files config t))) @ files s1,
                      trace := trace s1 @ tl (write_ops pp config t)\<rparr>"
    unfolding generateOffChainComponents_def path_join_literals list.map steps3
      and_then_Inr_iff perform_WriteFile_iff
    by (auto simp: generated_files_def write_ops_def)
  with s1 have "s' = s\<lparr>files := rev (map (\<lambda>(q, c). (pp @ q, F c)) (generated_files config t)) @ files s,
                      trace := trace s @ write_ops pp config t\<rparr>"
    by (simp add: generated_files_def write_ops_def)
  with t d show ?thesis by blast
qed

lemma scaffoldProject_success:
  assumes run: "scaffoldProject e name tmpl s = (Inr (), s')" and pr: "prompt e name tmpl = Inr config"
  shows "\<exists>(sB :: state) t. Handlebars_compile (loadTemplate e (files sB)) (context_of config) = Some t \<and>
           stat (files sB) (target_path e name) = Some D \<and>
           files s' = rev (map (\<lambda>(q, c). (target_path e name @ q, F c)) (generated_files config t)) @ files sB"
proof -
  let ?pp = "target_path e name"
  have ne: "\<not> pathExists ?pp (files s)"
  proof
    assume "pathExists ?pp (files s)"
    then have "scaffoldProject e name tmpl s = (Inl (DirectoryExists name), s)"
      by (simp add: scaffoldProject_def target_path_def)
    with run show False by simp
  qed
  from run obtain sB sC where
    w: "and_then (generatePackageJson e ?pp config)
           (and_then (steps (map perform
                  [WriteFile (?pp @ [''hardhat.config.ts'']) getHardhatConfig,
                   WriteFile (?pp @ [''scripts'', ''deploy.ts'']) getDeployScript,
                   WriteFile (?pp @ [''test'', ''TaskMailbox.test.ts'']) getTestFile]))
              (generateOffChainComponents ?pp config)) sB = (Inr (), sC)"
    and l: "console_log ''Project scaffolded successfully!'' sC = (Inr (), s')"
    unfolding scaffoldProject_seq [OF ne pr] and_then_Inr_iff by blast
  from write_artifacts_inv [OF w] obtain t where
    t: "Handlebars_compile (loadTemplate e (files sB)) (context_of config) = Some t"
      "stat (files sB) ?pp = Some D"
    and sC: "sC = sB\<lparr>files := rev (map (\<lambda>(q, c). (?pp @ q, F c)) (generated_files config t)) @ files sB,
                      trace := trace sB @ write_ops ?pp config t\<rparr>"
    by blast
  from l have "files s' = files sC" by (auto simp: console_log_def)
  with sC have "files s' = rev (map (\<lambda>(q, c). (?pp @ q, F c)) (generated_files config t)) @ files sB"
    by simp
  with t show ?thesis by blast
qed

section \<open>Two runs whose answers differ\<close>










section \<open>The generated JSON and the files of a project\<close>

lemma json_quote_keys:
  \<open>json_quote ''name'' = ''"name"''\<close>
  \<open>json_quote ''version'' = ''"version"''\<close>
  \<open>json_quote ''type'' = ''"type"''\<close>
  \<open>json_quote ''dependencies'' = ''"dependencies"''\<close>
  \<open>json_quote ''ethers'' = ''"ethers"''\<close>
  \<open>json_quote ''dotenv'' = ''"dotenv"''\<close>
  \<open>json_quote ''0.1.0'' = ''"0.1.0"''\<close>
  \<open>json_quote ''module'' = ''"module"''\<close>
  \<open>json_quote ''^6.9.2'' = ''"^6.9.2"''\<close>
  \<open>json_quote ''^16.3.1'' = ''"^16.3.1"''\<close>
  by (simp_all add: json_quote_def json_escape_char_def)

lemma off_chain_text_eq:
  "writeJSON_text (offChainPackageJson config) =
     off_chain_text (json_quote (projectName config @ ''-off-chain''))"
  by (simp add: writeJSON_text_def offChainPackageJson_def off_chain_text_def json_quote_keys)

lemma json_quote_plain:
  \<open>list_all json_plain s \<Longrightarrow> json_quote s = ''"'' @ s @ ''"''\<close>
proof -
  assume a: "list_all json_plain s"
  have "concat (map json_escape_char s) = s"
    using a
  proof (induction s)
    case Nil
    show ?case by simp
  next
    case (Cons c cs)
    from Cons.prems have "json_escape_char c = [c]"
      by (auto simp: json_plain_def json_escape_char_def)
    with Cons show ?case by simp
  qed
  then show ?thesis by (simp add: json_quote_def)
qed










text \<open>The equations that run the generator on a given installation.\<close>

lemmas demo_simps = start_def demo_env_def demo_answers_def bare_install_def contracts_install_def full_install_def
  package_env_def oracle_env_def notes_install_def target_path_def bundled_contracts_def bundled_template_def
  path_join_def path_step_def

lemmas eval_simps = scaffoldProject_def createProjectStructure_def generateOffChainComponents_def
  copyContractTemplates_def generatePackageJson_def loadTemplate_def readFile_def
  perform_def console_log_def ensureDir_def writeFile_def copy_def copy_items_def copy_clash_def
  pathExists_def Let_def


section \<open>The two runs on the full installation\<close>


section \<open>C1: the fixed file set\<close>




section \<open>C2: the precondition check\<close>



section \<open>C3: the rendered root package.json\<close>




section \<open>C4: the renderer\<close>




section \<open>C5: the built-in template\<close>




section \<open>C6: a missing contracts directory\<close>

text \<open>
  When the bundled contracts directory is missing, and the directories the run makes
  do not put one in its place, the copies are skipped and the run succeeds: the project
  directory holds the seven generated files and the seven directories, and nothing
  under \<^verbatim>\<open>contracts\<close> but the empty \<^verbatim>\<open>interfaces\<close>. The template has no such skip:
  \<open>loadTemplate\<close> falls back to the built-in body, so \<^verbatim>\<open>package.json\<close> is always
  written.
\<close>

lemma contracts_missing_skip:
  assumes "contracts_missing e (files s) (target_path e name)"
    and "can_create (files s) (target_path e name)"
    and "tree_fs (files s)"
    and "prompt e name tmpl = Inr config"
    and "\<not> prefix (target_path e name) (bundled_template e)"
    and "Handlebars_compile (loadTemplate e (files s)) (context_of config) = Some t"
  shows "\<exists>s'. scaffoldProject e name tmpl s = (Inr (), s') \<and>
              trace s' = trace s @ EnsureDir (target_path e name) #
                directory_ops (target_path e name) @ write_ops (target_path e name) config t \<and>
              (\<forall>q. stat (files s') (target_path e name @ q) =
                 (case map_of (generated_files config t) q of
                    Some c \<Rightarrow> Some (F c)
                  | None \<Rightarrow> if q = [] \<or> q \<in> set project_dirs then Some D else None))"
proof -
  from scaffold_run [OF assms(2,3,4,5,6), of False] assms(1)
  obtain s' where "scaffoldProject e name tmpl s = (Inr (), s')"
    and "trace s' = trace s @ run_ops (target_path e name) (bundled_contracts e) False config t"
    and "\<forall>q. stat (files s') (target_path e name @ q) =
              project_tree (stat (files s)) (bundled_contracts e) False config t q"
    by auto
  then show ?thesis
    by (simp add: run_ops_def project_tree_def)
qed

text \<open>
  C6, a defect of the code. The claim is that a missing bundled contracts directory
  makes the run skip the copies and succeed. The code means to do so: it guards the four
  copies by \<^verbatim>\<open>pathExists(contractsPath)\<close>. But it asks after it has made the project's
  directories. Run from the tool's own package directory \<^verbatim>\<open>/opt/avs\<close> with the project
  name \<^verbatim>\<open>contracts\<close>, on an installation with no bundled contracts, the project
  directory is the place of the bundled contracts: nothing is there at the start, the
  run makes it, the guard then finds it, and the first copy fails for want of
  \<^verbatim>\<open>/opt/avs/contracts/interfaces\<close>, leaving the directories behind and no file.
\<close>

theorem contracts_guard_after_mkdir:
  "bundled_contracts package_env = [''opt'', ''avs'', ''contracts''] \<and>
   target_path package_env ''contracts'' = [''opt'', ''avs'', ''contracts''] \<and>
   stat (files (start bare_install)) (bundled_contracts package_env) = None \<and>
   fst (scaffoldProject package_env ''contracts'' ''task-based'' (start bare_install)) =
     Inl (ENOENT [''opt'', ''avs'', ''contracts'', ''interfaces'']) \<and>
   stat (files (snd (scaffoldProject package_env ''contracts'' ''task-based'' (start bare_install))))
     [''opt'', ''avs'', ''contracts'', ''off-chain'', ''executor''] = Some D \<and>
   stat (files (snd (scaffoldProject package_env ''contracts'' ''task-based'' (start bare_install))))
     [''opt'', ''avs'', ''contracts'', ''package.json''] = None"
  by (simp add: eval_simps demo_simps)

section \<open>C7: the chosen template\<close>



section \<open>C8: the off-chain package.json\<close>

text \<open>
  C8. After every successful run, \<^verbatim>\<open>off-chain/package.json\<close> of the project directory
  is the JSON text, indented by two spaces and ended by a newline, of the object whose
  \<^verbatim>\<open>name\<close> is the project name collected by the prompt followed by \<^verbatim>\<open>-off-chain\<close>,
  whose \<^verbatim>\<open>version\<close> is \<^verbatim>\<open>0.1.0\<close>, whose \<^verbatim>\<open>type\<close> is \<^verbatim>\<open>module\<close> and whose
  \<^verbatim>\<open>dependencies\<close> are \<^verbatim>\<open>ethers ^6.9.2\<close> and \<^verbatim>\<open>dotenv ^16.3.1\<close>: every character of
  the file but the quoted name is the same for all inputs.
\<close>

theorem off_chain_package_json:
  assumes "scaffoldProject e name tmpl s = (Inr (), s')"
    and "prompt e name tmpl = Inr config"
  shows "stat (files s') (target_path e name @ [''off-chain'', ''package.json'']) =
           Some (F (writeJSON_text (offChainPackageJson config))) \<and>
         json_field (offChainPackageJson config) ''name'' =
           Some (JString (projectName config @ ''-off-chain'')) \<and>
         json_field (offChainPackageJson config) ''version'' = Some (JString ''0.1.0'') \<and>
         json_field (offChainPackageJson config) ''type'' = Some (JString ''module'') \<and>
         json_field (offChainPackageJson config) ''dependencies'' =
           Some (JObject [(''ethers'', JString ''^6.9.2''), (''dotenv'', JString ''^16.3.1'')]) \<and>
         writeJSON_text (offChainPackageJson config) =
           off_chain_text (json_quote (projectName config @ ''-off-chain''))"
proof -
  from scaffoldProject_success [OF assms]
  obtain sB :: state and t where
    f: "files s' = rev (map (\<lambda>(q, c). (target_path e name @ q, F c)) (generated_files config t)) @ files sB"
    by blast
  have "stat (files s') (target_path e name @ [''off-chain'', ''package.json'']) =
           Some (F (writeJSON_text (offChainPackageJson config)))"
    unfolding f stat_generated by (simp add: generated_files_def)
  moreover have "json_field (offChainPackageJson config) ''name'' =
           Some (JString (projectName config @ ''-off-chain''))"
    "json_field (offChainPackageJson config) ''version'' = Some (JString ''0.1.0'')"
    "json_field (offChainPackageJson config) ''type'' = Some (JString ''module'')"
    "json_field (offChainPackageJson config) ''dependencies'' =
           Some (JObject [(''ethers'', JString ''^6.9.2''), (''dotenv'', JString ''^16.3.1'')])"
    by (simp_all add: offChainPackageJson_def)
  ultimately show ?thesis
    using off_chain_text_eq [of config] by (intro conjI)
qed

theorem off_chain_package_json_witness:
  \<open>scaffoldProject demo_env ''demo'' ''task-based'' (start bare_install) =
     (Inr (), snd (scaffoldProject demo_env ''demo'' ''task-based'' (start bare_install))) \<and>
   prompt demo_env ''demo'' ''task-based'' = Inr demo_answers \<and>
   stat (files (snd (scaffoldProject demo_env ''demo'' ''task-based'' (start bare_install))))
     [''home'', ''dev'', ''demo'', ''off-chain'', ''package.json''] =
     Some (F (off_chain_text ''"demo-off-chain"''))\<close>
proof -
  have "fst (scaffoldProject demo_env ''demo'' ''task-based'' (start bare_install)) = Inr ()"
    by (simp add: eval_simps demo_simps default_render)
  then have h1: "scaffoldProject demo_env ''demo'' ''task-based'' (start bare_install) =
     (Inr (), snd (scaffoldProject demo_env ''demo'' ''task-based'' (start bare_install)))"
    by (simp add: prod_eq_iff)
  have h2: "prompt demo_env ''demo'' ''task-based'' = Inr demo_answers"
    by (simp add: demo_env_def)
  note c = off_chain_package_json [OF h1 h2]
  have q: \<open>json_quote (projectName demo_answers @ ''-off-chain'') = ''"demo-off-chain"''\<close>
    by (simp add: demo_answers_def json_quote_def json_escape_char_def)
  have p: "target_path demo_env ''demo'' @ [''off-chain'', ''package.json''] =
      [''home'', ''dev'', ''demo'', ''off-chain'', ''package.json'']"
    by (simp add: demo_simps)
  have \<open>stat (files (snd (scaffoldProject demo_env ''demo'' ''task-based'' (start bare_install))))
     [''home'', ''dev'', ''demo'', ''off-chain'', ''package.json''] =
     Some (F (off_chain_text ''"demo-off-chain"''))\<close>
    using c [THEN conjunct1] c [THEN conjunct2, THEN conjunct2, THEN conjunct2, THEN conjunct2, THEN conjunct2]
    unfolding p q by simp
  with h1 h2 show ?thesis by (intro conjI)
qed

section \<open>C9: directories before files\<close>

text \<open>
  C9. The file-system operations of a run, successful or not, in the order they were
  made: every file written and every copy made has, earlier in the run, the creation
  of the directory that contains it; and the first operation of a run that makes any is
  the creation of the project directory, so it comes before every other directory and
  every file.
\<close>

theorem directories_before_writes:
  "\<exists>ops. trace (snd (scaffoldProject e name tmpl s)) = trace s @ ops \<and>
         dirs_before_writes [] ops \<and> root_first (target_path e name) ops"
proof -
  from scaffoldProject_trace [of e name tmpl s] obtain copied config t k where
    "trace (snd (scaffoldProject e name tmpl s)) =
        trace s @ take k (run_ops (target_path e name) (bundled_contracts e) copied config t)"
    by blast
  moreover have "dirs_before_writes [] (take k (run_ops (target_path e name) (bundled_contracts e) copied config t))"
    by (rule dirs_before_writes_take [OF dirs_before_writes_run_ops])
  ultimately show ?thesis
    using root_first_take by blast
qed

theorem directories_before_writes_witness:
  "(\<exists>ops. trace (snd (scaffoldProject package_env ''contracts'' ''task-based'' (start bare_install))) =
            trace (start bare_install) @ ops \<and>
          dirs_before_writes [] ops \<and>
          root_first (target_path package_env ''contracts'') ops) \<and>
   length (trace (snd (scaffoldProject package_env ''contracts'' ''task-based'' (start bare_install)))) = 8 \<and>
   fst (scaffoldProject package_env ''contracts'' ''task-based'' (start bare_install)) =
     Inl (ENOENT [''opt'', ''avs'', ''contracts'', ''interfaces''])"
proof -
  have "length (trace (snd (scaffoldProject package_env ''contracts'' ''task-based'' (start bare_install)))) = 8 \<and>
   fst (scaffoldProject package_env ''contracts'' ''task-based'' (start bare_install)) =
     Inl (ENOENT [''opt'', ''avs'', ''contracts'', ''interfaces''])"
    by (simp add: eval_simps demo_simps)
  with directories_before_writes [of package_env "''contracts''" "''task-based''" "start bare_install"]
  show ?thesis by (intro conjI) simp_all
qed

section \<open>C10: the project directory and the project name\<close>



end
